theory Spec2Isabelle
  imports Main "HOL-Library.AList"
begin

text \<open>
  A model of the form validation library \<open>solid-validation\<close>: the two PocketBase helpers of
  \<open>pocketbase.ts\<close> and the validation context of \<open>main.ts\<close> (\<open>useForm\<close> with
  \<open>validate\<close>, \<open>formSubmit\<close>, \<open>submit\<close>, \<open>validateField\<close> and \<open>getFieldValue\<close>).  Where
  the sources hold several revisions of a file, the model follows the latest: the one in
  which \<open>submit\<close> is a function of its own, elements may be registered by \<open>data-name\<close>, and
  \<open>parsePocketbaseError\<close> takes the root key as its second argument.
\<close>

section \<open>JavaScript objects\<close>

text \<open>
  An object is the list of its own enumerable string-keyed properties in creation order;
  keys are distinct.  Assigning to a property (\<open>AList.update\<close>) replaces the value in
  place or appends a new property; \<open>delete\<close> is \<open>AList.delete\<close>; a read is
  \<open>map_of\<close>.

  Enumeration (\<open>for ... in\<close>, \<open>Object.keys\<close>, \<open>Object.entries\<close>) follows
  OrdinaryOwnPropertyKeys of ECMAScript: first the keys that are array indices (the
  canonical decimal numerals of the integers below \<open>2^32 - 1\<close>) in ascending numeric
  order, then all other keys in creation order.

  An object created by a literal inherits the properties of \<open>Object.prototype\<close>, all of
  them methods or objects and hence truthy: a read \<open>obj[k]\<close> and the test \<open>k in obj\<close> by
  a name \<open>k\<close> that is no own key of \<open>obj\<close> find them (\<open>get_property\<close>).  They are not
  enumerable.  Names under which elements are registered are taken not to be among them: no
  field is named \<open>constructor\<close>, \<open>toString\<close> or the like, so that reads of the error store
  by the name of a field see own properties only.
\<close>

definition is_digit :: "char \<Rightarrow> bool" where
  "is_digit c = (48 \<le> (of_char c :: int) \<and> (of_char c :: int) \<le> 57)"

definition decimal :: "string \<Rightarrow> int" where
  "decimal s = foldl (\<lambda>n c. 10 * n + ((of_char c :: int) - 48)) 0 s"

definition is_array_index :: "string \<Rightarrow> bool" where
  "is_array_index s =
     (s \<noteq> [] \<and> list_all is_digit s \<and> (length s = 1 \<or> hd s \<noteq> CHR ''0'')
      \<and> decimal s < 4294967295)"

definition own_entries :: "(string \<times> 'v) list \<Rightarrow> (string \<times> 'v) list" where
  "own_entries obj =
     sort_key (\<lambda>p. decimal (fst p)) (filter (\<lambda>p. is_array_index (fst p)) obj)
     @ filter (\<lambda>p. \<not> is_array_index (fst p)) obj"

definition own_keys :: "(string \<times> 'v) list \<Rightarrow> string list" where
  "own_keys obj = map fst (own_entries obj)"

definition object_prototype_names :: "string list" where
  "object_prototype_names =
     [''constructor'', ''__defineGetter__'', ''__defineSetter__'', ''hasOwnProperty'',
      ''__lookupGetter__'', ''__lookupSetter__'', ''isPrototypeOf'', ''propertyIsEnumerable'',
      ''toString'', ''valueOf'', ''__proto__'', ''toLocaleString'']"

text \<open>
  What \<open>obj[k]\<close> finds: an own property, a property of \<open>Object.prototype\<close>, or nothing
  (the read then gives \<open>undefined\<close>, and \<open>k in obj\<close> is false).
\<close>

datatype 'v property = Own 'v | Inherited | Missing

definition get_property :: "(string \<times> 'v) list \<Rightarrow> string \<Rightarrow> 'v property" where
  "get_property obj k =
     (case map_of obj k of
        Some v \<Rightarrow> Own v
      | None \<Rightarrow> if k \<in> set object_prototype_names then Inherited else Missing)"

section \<open>The PocketBase helpers\<close>

subsection \<open>prepareFormDataForPocketbase\<close>

text \<open>
  A FormData object is an ordered list of entries; a name may occur several times.
  \<open>has\<close>, \<open>set\<close> and \<open>getAll\<close> are the methods of the FormData interface:
  \<open>set\<close> replaces the first entry of the name and drops its other entries, or appends a
  new entry when the name has none.
\<close>

datatype fd_value = FdString string | FdFile string

type_synonym form_data = "(string \<times> fd_value) list"

definition fd_has :: "form_data \<Rightarrow> string \<Rightarrow> bool" where
  "fd_has fd n = (n \<in> set (map fst fd))"

fun fd_replace :: "form_data \<Rightarrow> string \<Rightarrow> fd_value \<Rightarrow> form_data" where
  "fd_replace [] n v = []"
| "fd_replace (e # es) n v =
     (if fst e = n then (n, v) # filter (\<lambda>x. fst x \<noteq> n) es else e # fd_replace es n v)"

definition fd_set :: "form_data \<Rightarrow> string \<Rightarrow> fd_value \<Rightarrow> form_data" where
  "fd_set fd n v = (if fd_has fd n then fd_replace fd n v else fd @ [(n, v)])"

definition fd_getAll :: "form_data \<Rightarrow> string \<Rightarrow> fd_value list" where
  "fd_getAll fd n = map snd (filter (\<lambda>e. fst e = n) fd)"

text \<open>
  The form is the list of its descendant elements in document order, each with its tag (the
  local name, which is in lower case for the elements of an HTML document), its \<open>type\<close>
  attribute as written and its \<open>name\<close> property.  In HTML documents the selector
  \<open>input[type="checkbox"]\<close> compares the value of the \<open>type\<close> attribute without regard to
  ASCII case.
\<close>

definition ascii_lowercase :: "string \<Rightarrow> string" where
  "ascii_lowercase s =
     map (\<lambda>c. if 65 \<le> (of_char c :: int) \<and> (of_char c :: int) \<le> 90
              then char_of ((of_char c :: int) + 32) else c) s"

record descendant =
  tag :: string
  type_attr :: "string option"
  control_name :: string

definition querySelectorAll_checkbox :: "descendant list \<Rightarrow> descendant list" where
  "querySelectorAll_checkbox form =
     filter (\<lambda>d. tag d = ''input''
                  \<and> map_option ascii_lowercase (type_attr d) = Some ''checkbox'') form"

text \<open>
  FormData objects live in a store of references, since the function changes its argument
  in place and returns the reference it was given.
\<close>

definition prepareFormDataForPocketbase ::
  "nat \<Rightarrow> descendant list \<Rightarrow> (nat \<Rightarrow> form_data) \<Rightarrow> nat \<times> (nat \<Rightarrow> form_data)" where
  "prepareFormDataForPocketbase formData form heap =
     (formData,
      heap(formData :=
        fold (\<lambda>input fd.
                if \<not> fd_has fd (control_name input)
                then fd_set fd (control_name input) (FdString ''false'')
                else fd)
             (querySelectorAll_checkbox form) (heap formData)))"

subsection \<open>parsePocketbaseError\<close>

text \<open>
  The values an error can carry.  Reading a property of \<open>null\<close> or \<open>undefined\<close> is a
  TypeError; reading a property a value does not have gives \<open>undefined\<close>.
\<close>

datatype jsval =
    JUndefined
  | JNull
  | JBool bool
  | JNum int
  | JStr string
  | JObj "(string \<times> jsval) list"

datatype js_error = TypeError | SyntaxError | InvalidCharacterError

record pb_error =
  message :: string
  data :: jsval












section \<open>The validation context\<close>

subsection \<open>DOM elements\<close>

text \<open>
  What the library reads and writes of an element.  Elements are addressed by reference
  (a natural number): the field registry, the event handlers and the document share them.

  \<^item> \<open>name_prop\<close> is \<open>element.name\<close>, which is undefined on elements that are not form
    controls; \<open>dataset_name\<close> is \<open>element.dataset.name\<close>.
  \<^item> \<open>validity_api\<close> tells whether the element has the constraint validation interface
    (\<open>setCustomValidity\<close>, \<open>checkValidity\<close>, \<open>validationMessage\<close>); a \<open>div\<close> has not.
  \<^item> \<open>willValidate\<close> tells whether the element is a candidate for constraint validation
    (a disabled control is not).
  \<^item> \<open>native_message\<close> is the message of the browser for the built-in constraints of the
    element at its present value, empty when they are satisfied; \<open>custom_message\<close> is the
    custom validity message.
  \<^item> \<open>className\<close> is the \<open>class\<close> attribute, from which \<open>classList\<close> is read.
  \<^item> \<open>in_document\<close> is \<open>document.contains(element)\<close>.
  \<^item> \<open>el_value\<close> is \<open>element.value\<close>, which is undefined on elements that are not form
    controls.
\<close>

record html_element =
  name_prop :: "string option"
  dataset_name :: "string option"
  validity_api :: bool
  willValidate :: bool
  native_message :: string
  custom_message :: string
  aria_invalid :: "string option"
  className :: string
  in_document :: bool
  el_value :: "string option"

text \<open>
  \<open>element.validationMessage\<close>: empty for an element that is no candidate for validation or
  satisfies its constraints, and undefined (falsy as well, hence empty here) without the
  interface.  A custom validity message, when one is set, is the message browsers report.
  \<open>element.checkValidity()\<close> changes none of this (it fires an \<open>invalid\<close> event, which the
  library does not listen to), so it has no counterpart below.
\<close>

definition validationMessage :: "html_element \<Rightarrow> string" where
  "validationMessage e =
     (if validity_api e \<and> willValidate e
      then (if custom_message e \<noteq> '''' then custom_message e else native_message e)
      else '''')"

text \<open>\<open>element.name ?? element.dataset.name\<close>, used as a property key.\<close>

definition field_name :: "html_element \<Rightarrow> string" where
  "field_name e =
     (case name_prop e of
        Some n \<Rightarrow> n
      | None \<Rightarrow> (case dataset_name e of Some n \<Rightarrow> n | None \<Rightarrow> ''undefined''))"

text \<open>
  \<open>element.classList\<close> is the token set of the \<open>class\<close> attribute: the attribute is split
  on ASCII whitespace (tab, line feed, form feed, carriage return, space), and a token that
  occurs again is dropped.  Writing a token set back joins its tokens by single spaces.
\<close>

definition is_ascii_whitespace :: "char \<Rightarrow> bool" where
  "is_ascii_whitespace c = (c \<in> set [CHR 0x09, CHR 0x0A, CHR 0x0C, CHR 0x0D, CHR 0x20])"

definition has_whitespace :: "string \<Rightarrow> bool" where
  "has_whitespace s = list_ex is_ascii_whitespace s"

fun split_on_whitespace :: "string \<Rightarrow> string \<Rightarrow> string list" where
  "split_on_whitespace token [] = (if token = [] then [] else [token])"
| "split_on_whitespace token (c # cs) =
     (if is_ascii_whitespace c
      then (if token = [] then split_on_whitespace [] cs
            else token # split_on_whitespace [] cs)
      else split_on_whitespace (token @ [c]) cs)"

definition ordered_set :: "string list \<Rightarrow> string list" where
  "ordered_set tokens = rev (remdups (rev tokens))"

definition classList :: "html_element \<Rightarrow> string list" where
  "classList e = ordered_set (split_on_whitespace [] (className e))"

fun serialize :: "string list \<Rightarrow> string" where
  "serialize [] = []"
| "serialize [token] = token"
| "serialize (token # tokens) = token @ CHR 0x20 # serialize tokens"

subsection \<open>Validators, fields and the state of a context\<close>

text \<open>
  A validator answers a string or a falsy value that is no string (\<open>None\<close>); the answer is
  truthy when it is a string that is not empty.  An entry of a validator list may itself be
  falsy (\<open>None\<close>).  Validators and the submit callback are taken to fulfil: they read the
  DOM and answer.
\<close>

type_synonym validator = "html_element \<Rightarrow> string option"

definition truthy :: "string option \<Rightarrow> bool" where
  "truthy v = (case v of None \<Rightarrow> False | Some s \<Rightarrow> s \<noteq> '''')"

record field =
  element :: nat
  validators :: "validator option list"

text \<open>The awaited answer of the submit callback: an object of messages, or anything else.\<close>

datatype callback_result = NotAnObject | ResultObject "(string \<times> string option) list"

type_synonym callback = "(nat \<Rightarrow> html_element) \<Rightarrow> callback_result"

text \<open>
  The trace of a context records, in the order they happen, the steps of a run that the
  state alone would not show: \<open>Validator r i\<close>, the validator of index \<open>i\<close> in the list of
  its field is called on the element \<open>r\<close>; \<open>Checked r m\<close>, the check of the element \<open>r\<close>
  has found the message \<open>m\<close> (empty when the element is valid); \<open>Focus\<close> and
  \<open>ScrollIntoView\<close>, the calls of these methods on an element; \<open>Callback\<close>, the call
  of the submit callback; and the writes to the two signals.
\<close>

datatype event =
    Validator nat nat
  | Checked nat string
  | Focus nat
  | ScrollIntoView nat
  | Callback
  | SetIsSubmitting bool
  | SetIsSubmitted bool

text \<open>
  The closure variables of \<open>useForm\<close>: the error store, the two signals, the field
  registry (\<open>fields\<close> in the source) and \<open>errorClass\<close>; with them the elements, the
  handlers that \<open>validate\<close> has put on elements (the name and the configuration each handler
  has captured), and the trace.
\<close>

record form_state =
  errors :: "(string \<times> string) list"
  isSubmitting :: bool
  isSubmitted :: bool
  registry :: "(string \<times> field) list"
  errorClass :: string
  handlers :: "nat \<Rightarrow> (string \<times> field) option"
  elements :: "nat \<Rightarrow> html_element"
  trace :: "event list"

definition useForm :: "string \<Rightarrow> (nat \<Rightarrow> html_element) \<Rightarrow> form_state" where
  "useForm error_class els =
     \<lparr>errors = [], isSubmitting = False, isSubmitted = False, registry = [],
      errorClass = error_class, handlers = (\<lambda>r. None), elements = els, trace = []\<rparr>"

definition emit :: "event \<Rightarrow> form_state \<Rightarrow> form_state" where
  "emit ev st = st\<lparr>trace := trace st @ [ev]\<rparr>"

definition setIsSubmitting :: "bool \<Rightarrow> form_state \<Rightarrow> form_state" where
  "setIsSubmitting b st = emit (SetIsSubmitting b) (st\<lparr>isSubmitting := b\<rparr>)"

definition setIsSubmitted :: "bool \<Rightarrow> form_state \<Rightarrow> form_state" where
  "setIsSubmitted b st = emit (SetIsSubmitted b) (st\<lparr>isSubmitted := b\<rparr>)"

subsection \<open>The error store\<close>

text \<open>
  \<open>setErrors(object)\<close> of a solid-js store merges the object into the store key by key;
  a value that is undefined deletes the key.
\<close>

definition setProperty ::
  "string \<Rightarrow> string option \<Rightarrow> (string \<times> string) list \<Rightarrow> (string \<times> string) list" where
  "setProperty property val state =
     (case val of None \<Rightarrow> AList.delete property state | Some v \<Rightarrow> AList.update property v state)"

definition mergeStoreNode ::
  "(string \<times> string option) list \<Rightarrow> (string \<times> string) list \<Rightarrow> (string \<times> string) list" where
  "mergeStoreNode val state =
     fold (\<lambda>key. setProperty key (case map_of val key of None \<Rightarrow> None | Some v \<Rightarrow> v))
       (own_keys val) state"

definition setErrors :: "(string \<times> string option) list \<Rightarrow> form_state \<Rightarrow> form_state" where
  "setErrors val st = st\<lparr>errors := mergeStoreNode val (errors st)\<rparr>"

definition clearErrors :: "form_state \<Rightarrow> form_state" where
  "clearErrors st =
     setErrors (map (\<lambda>p. (fst p, None)) (own_entries (errors st))) st"

subsection \<open>Writing to elements\<close>

definition update_element ::
  "nat \<Rightarrow> (html_element \<Rightarrow> html_element) \<Rightarrow> form_state \<Rightarrow> form_state" where
  "update_element r f st = st\<lparr>elements := (elements st)(r := f (elements st r))\<rparr>"

text \<open>\<open>element.setCustomValidity?.(text)\<close>\<close>

definition set_custom_validity :: "string \<Rightarrow> html_element \<Rightarrow> html_element" where
  "set_custom_validity text e = (if validity_api e then e\<lparr>custom_message := text\<rparr> else e)"

definition setCustomValidity :: "nat \<Rightarrow> string \<Rightarrow> form_state \<Rightarrow> form_state" where
  "setCustomValidity r text st = update_element r (set_custom_validity text) st"

text \<open>
  \<open>element.classList.toggle(token, force)\<close> throws a SyntaxError for the empty token and an
  InvalidCharacterError for a token with ASCII whitespace.  For any other token it adds the
  token to the token set (\<open>force\<close> true) or removes it (\<open>force\<close> false), and writes the set
  back to the attribute when the set has changed.
\<close>

definition token_toggled :: "string \<Rightarrow> bool \<Rightarrow> html_element \<Rightarrow> html_element" where
  "token_toggled token force e =
     (if token \<in> set (classList e)
      then (if force then e else e\<lparr>className := serialize (removeAll token (classList e))\<rparr>)
      else (if force then e\<lparr>className := serialize (classList e @ [token])\<rparr> else e))"

definition classList_toggle :: "string \<Rightarrow> bool \<Rightarrow> html_element \<Rightarrow> js_error + html_element" where
  "classList_toggle token force e =
     (if token = [] then Inl SyntaxError
      else if has_whitespace token then Inl InvalidCharacterError
      else Inr (token_toggled token force e))"

text \<open>\<open>errorClass && element.classList.toggle(errorClass, force)\<close>\<close>

definition toggle_errorClass :: "nat \<Rightarrow> bool \<Rightarrow> form_state \<Rightarrow> js_error + form_state" where
  "toggle_errorClass r force st =
     (if errorClass st \<noteq> '''' then
        (case classList_toggle (errorClass st) force (elements st r) of
           Inl err \<Rightarrow> Inl err
         | Inr e \<Rightarrow> Inr (update_element r (\<lambda>_. e) st))
      else Inr st)"

text \<open>\<open>element.setAttribute('aria-invalid', v)\<close>\<close>

definition set_aria_invalid :: "nat \<Rightarrow> string \<Rightarrow> form_state \<Rightarrow> form_state" where
  "set_aria_invalid r v st = update_element r (\<lambda>e. e\<lparr>aria_invalid := Some v\<rparr>) st"

subsection \<open>checkValid\<close>

text \<open>
  The loop over the validators of one element, from the entry of index \<open>i\<close>: a falsy entry is
  skipped, every other validator is called and awaited in turn, and the first truthy answer
  becomes the custom validity and ends the loop.  The message is falsy when the loop runs out.
\<close>

fun run_validators ::
  "nat \<Rightarrow> nat \<Rightarrow> validator option list \<Rightarrow> form_state \<Rightarrow> form_state \<times> string" where
  "run_validators r i [] st = (st, '''')"
| "run_validators r i (None # vs) st = run_validators r (Suc i) vs st"
| "run_validators r i (Some v # vs) st =
     (let st1 = emit (Validator r i) st in
      case v (elements st r) of
        None \<Rightarrow> run_validators r (Suc i) vs st1
      | Some text \<Rightarrow>
          if text \<noteq> '''' then (setCustomValidity r text st1, text)
          else run_validators r (Suc i) vs st1)"

text \<open>
  The function that \<open>checkValid(config, setErrors, errorClass)\<close> returns, when it is called.
  It answers the state it leaves and either the message it returns or the error it throws;
  what it has written before a throw stays written.  The trace records the message as soon
  as it is known.
\<close>

definition checkValid :: "field \<Rightarrow> form_state \<Rightarrow> form_state \<times> (js_error + string)" where
  "checkValid config st =
     (let r = element config;
          st1 = setCustomValidity r '''' st;
          native = validationMessage (elements st1 r);
          (st2, message) =
             (if native = '''' then run_validators r 0 (validators config) st1
              else (st1, native));
          st3 = emit (Checked r message) st2
      in if message \<noteq> '''' then
           (case toggle_errorClass r True st3 of
              Inl err \<Rightarrow> (st3, Inl err)
            | Inr st4 \<Rightarrow>
                (setErrors [(field_name (elements st4 r), Some message)]
                   (set_aria_invalid r ''true'' st4),
                 Inr message))
         else (st3, Inr message))"

subsection \<open>The functions of useForm\<close>

text \<open>
  \<open>validate(ref, accessor)\<close>, when its microtask runs.  The accessor gives a validator list,
  or something that is no array (\<open>None\<close>).
\<close>

definition validate :: "nat \<Rightarrow> validator option list option \<Rightarrow> form_state \<Rightarrow> form_state" where
  "validate ref accessorValue st =
     (let name = field_name (elements st ref);
          config = \<lparr>element = ref,
                    validators = (case accessorValue of Some vs \<Rightarrow> vs | None \<Rightarrow> [])\<rparr>
      in st\<lparr>registry := AList.update name config (registry st),
            handlers := (handlers st)(ref := Some (name, config))\<rparr>)"

text \<open>
  The \<open>onblur\<close> handler: it resets \<open>isSubmitted\<close> and returns the function that
  \<open>checkValid\<close> gave, which it does not call.
\<close>

definition onblur ::
  "field \<Rightarrow> form_state \<Rightarrow>
   form_state \<times> (form_state \<Rightarrow> form_state \<times> (js_error + string))" where
  "onblur config st = (setIsSubmitted False st, checkValid config)"

text \<open>The \<open>oninput\<close> handler, which ends with the call of \<open>classList.toggle\<close>.\<close>

definition oninput :: "nat \<Rightarrow> string \<Rightarrow> form_state \<Rightarrow> form_state \<times> (js_error + unit)" where
  "oninput ref name st =
     (let st1 = setIsSubmitted False st in
      if \<not> truthy (map_of (errors st1) name) then (st1, Inr ())
      else
        (let st2 = set_aria_invalid ref ''false'' (setErrors [(name, None)] st1) in
         case toggle_errorClass ref False st2 of
           Inl err \<Rightarrow> (st2, Inl err)
         | Inr st3 \<Rightarrow> (st3, Inr ())))"

definition focus_and_scroll :: "nat \<Rightarrow> form_state \<Rightarrow> form_state" where
  "focus_and_scroll r st = emit (ScrollIntoView r) (emit (Focus r) st)"

text \<open>
  \<open>validateField(fieldName)\<close>.  A name that \<open>fields\<close> only inherits passes the guard
  \<open>if (!field)\<close>; the check then reads \<open>element\<close> of a value that has none and calls a
  method of \<open>undefined\<close>, which is a TypeError.
\<close>

definition validateField :: "string \<Rightarrow> form_state \<Rightarrow> form_state \<times> (js_error + bool)" where
  "validateField fieldName st =
     (case get_property (registry st) fieldName of
        Missing \<Rightarrow> (st, Inr False)
      | Inherited \<Rightarrow> (st, Inl TypeError)
      | Own fld \<Rightarrow>
          (case checkValid fld st of
             (st1, Inl err) \<Rightarrow> (st1, Inl err)
           | (st1, Inr error) \<Rightarrow>
               (let st2 = (if validationMessage (elements st1 (element fld)) \<noteq> '''' \<or> error \<noteq> ''''
                           then focus_and_scroll (element fld) st1 else st1)
                in (st2, Inr (\<not> truthy (map_of (errors st2) fieldName))))))"

text \<open>
  \<open>getFieldValue(fieldName)\<close>, that is \<open>fields[fieldName]?.element.value\<close>: undefined
  (\<open>None\<close>) for a name that \<open>fields\<close> has not and for an element without a value.
\<close>

definition getFieldValue :: "string \<Rightarrow> form_state \<Rightarrow> js_error + string option" where
  "getFieldValue fieldName st =
     (case get_property (registry st) fieldName of
        Missing \<Rightarrow> Inr None
      | Inherited \<Rightarrow> Inl TypeError
      | Own fld \<Rightarrow> Inr (el_value (elements st (element fld))))"

text \<open>
  The loop of \<open>submit\<close> over the keys of the registry, with the flag \<open>errored\<close>.  A check
  that throws ends the loop and the pass.
\<close>

fun submit_fields ::
  "string list \<Rightarrow> bool \<Rightarrow> form_state \<Rightarrow> form_state \<times> (js_error + bool)" where
  "submit_fields [] errored st = (st, Inr errored)"
| "submit_fields (k # ks) errored st =
     (case get_property (registry st) k of
        Missing \<Rightarrow> submit_fields ks errored st
      | Inherited \<Rightarrow> (st, Inl TypeError)
      | Own fld \<Rightarrow>
          (case checkValid fld st of
             (st1, Inl err) \<Rightarrow> (st1, Inl err)
           | (st1, Inr error) \<Rightarrow>
               if \<not> errored
                  \<and> (validationMessage (elements st1 (element fld)) \<noteq> '''' \<or> error \<noteq> '''')
               then
                 (let st2 = focus_and_scroll (element fld) st1 in
                  if in_document (elements st2 (element fld)) then submit_fields ks True st2
                  else submit_fields ks errored
                         (st2\<lparr>registry := AList.delete k (registry st2)\<rparr>))
               else submit_fields ks errored st1))"

text \<open>
  \<open>for (const name in callbackResult)\<close>: a name that is not \<open>in fields\<close> is passed over;
  for any other name \<open>fields[name].element.setAttribute\<close> is called, which is a TypeError
  when \<open>fields\<close> only inherits the name.
\<close>

fun mark_invalid :: "string list \<Rightarrow> form_state \<Rightarrow> form_state \<times> (js_error + unit)" where
  "mark_invalid [] st = (st, Inr ())"
| "mark_invalid (name # names) st =
     (case get_property (registry st) name of
        Missing \<Rightarrow> mark_invalid names st
      | Inherited \<Rightarrow> (st, Inl TypeError)
      | Own fld \<Rightarrow> mark_invalid names (set_aria_invalid (element fld) ''true'' st))"

definition submit :: "callback \<Rightarrow> form_state \<Rightarrow> form_state \<times> (js_error + unit)" where
  "submit callback st =
     (case submit_fields (own_keys (registry st)) False st of
        (st1, Inl err) \<Rightarrow> (st1, Inl err)
      | (st1, Inr errored) \<Rightarrow>
          if errored then (st1, Inr ())
          else
            (let st2 = emit Callback (setIsSubmitting True st1);
                 callbackResult = callback (elements st2);
                 st3 = setIsSubmitting False st2
             in case callbackResult of
                  ResultObject obj \<Rightarrow>
                    (case mark_invalid (own_keys obj) st3 of
                       (st4, Inl err) \<Rightarrow> (st4, Inl err)
                     | (st4, Inr u) \<Rightarrow> (setErrors obj st4, Inr ()))
                | NotAnObject \<Rightarrow> (setIsSubmitted True (clearErrors st3), Inr ())))"

text \<open>
  \<open>formSubmit(ref, accessor)\<close> resets \<open>isSubmitted\<close>; the submit handler it puts on the form
  is \<open>submit\<close>, the reset handler is \<open>clearErrors\<close>.
\<close>

definition formSubmit :: "form_state \<Rightarrow> form_state" where
  "formSubmit st = setIsSubmitted False st"

subsection \<open>The life of a context\<close>

text \<open>
  What can happen to a context: calls of its functions, events on elements (which reach the
  handler the element carries, if any), and the page mounting, removing or editing an
  element.  Each runs to its end before the next begins: a pass that awaits a validator or
  the callback is not interleaved with other events.  A call that throws leaves the state it
  had reached.
\<close>

datatype action =
    UseValidate nat "validator option list option"
  | UseFormSubmit
  | Blur nat
  | Input nat
  | Submit callback
  | Reset
  | ValidateField string
  | SetMounted nat bool
  | Edit nat string string

fun fire :: "action \<Rightarrow> form_state \<Rightarrow> form_state" where
  "fire (UseValidate ref accessorValue) st = validate ref accessorValue st"
| "fire UseFormSubmit st = formSubmit st"
| "fire (Blur ref) st =
     (case handlers st ref of None \<Rightarrow> st | Some (name, config) \<Rightarrow> fst (onblur config st))"
| "fire (Input ref) st =
     (case handlers st ref of None \<Rightarrow> st | Some (name, config) \<Rightarrow> fst (oninput ref name st))"
| "fire (Submit callback) st = fst (submit callback st)"
| "fire Reset st = clearErrors st"
| "fire (ValidateField fieldName) st = fst (validateField fieldName st)"
| "fire (SetMounted ref b) st = update_element ref (\<lambda>e. e\<lparr>in_document := b\<rparr>) st"
| "fire (Edit ref v native) st =
     update_element ref (\<lambda>e. e\<lparr>el_value := Some v, native_message := native\<rparr>) st"

inductive reachable :: "form_state \<Rightarrow> bool" where
  start: "reachable (useForm error_class els)"
| step: "reachable st \<Longrightarrow> reachable (fire a st)"

text \<open>The events a run from \<open>st\<close> to \<open>st'\<close> has added to the trace.\<close>

definition events :: "form_state \<Rightarrow> form_state \<Rightarrow> event list" where
  "events st st' = drop (length (trace st)) (trace st')"

section \<open>Notions the properties are stated with\<close>

text \<open>
  The validators of a list that are functions, each with its index in the list (counted
  from \<open>i\<close>), and the part of a list up to and including its first element with property
  \<open>P\<close>.  \<open>awaited e i vs\<close> lists the indices of the validators of \<open>vs\<close> in list order, up to
  and including the first one whose answer on \<open>e\<close> is truthy; \<open>first_answer e vs\<close> is that
  answer, or the empty string when there is none.
\<close>

definition callable :: "nat \<Rightarrow> validator option list \<Rightarrow> (nat \<times> validator) list" where
  "callable i vs = List.map_filter (\<lambda>p. map_option (Pair (fst p)) (snd p)) (enumerate i vs)"

definition upto_first :: "('a \<Rightarrow> bool) \<Rightarrow> 'a list \<Rightarrow> 'a list" where
  "upto_first P xs = takeWhile (\<lambda>x. \<not> P x) xs @ take 1 (dropWhile (\<lambda>x. \<not> P x) xs)"

definition awaited :: "html_element \<Rightarrow> nat \<Rightarrow> validator option list \<Rightarrow> nat list" where
  "awaited e i vs = map fst (upto_first (\<lambda>p. truthy (snd p e)) (callable i vs))"

definition first_answer :: "html_element \<Rightarrow> validator option list \<Rightarrow> string" where
  "first_answer e vs =
     (case List.find (\<lambda>p. truthy (snd p e)) (callable 0 vs) of
        None \<Rightarrow> ''''
      | Some p \<Rightarrow> (case snd p e of None \<Rightarrow> '''' | Some text \<Rightarrow> text))"

text \<open>
  The failure message of a field whose element is \<open>e\<close>: the native message of the element
  once the custom validity is cleared, else the first truthy answer of its validators on that
  element; empty when the field is valid.  \<open>check_message\<close> reads the element from a state.
\<close>

definition element_message :: "field \<Rightarrow> html_element \<Rightarrow> string" where
  "element_message config e =
     (let e0 = set_custom_validity '''' e in
      if validationMessage e0 \<noteq> '''' then validationMessage e0
      else first_answer e0 (validators config))"

definition check_message :: "field \<Rightarrow> form_state \<Rightarrow> string" where
  "check_message config st = element_message config (elements st (element config))"

text \<open>
  The events of the check of a field whose element is \<open>e\<close>: the calls of the validators, none
  when the native validity fails, and then the message.
\<close>

definition check_events :: "field \<Rightarrow> html_element \<Rightarrow> event list" where
  "check_events config e =
     map (Validator (element config))
       (if validationMessage (set_custom_validity '''' e) \<noteq> '''' then []
        else awaited (set_custom_validity '''' e) 0 (validators config))
     @ [Checked (element config) (element_message config e)]"

text \<open>
  The element a check leaves behind, given \<open>errorClass\<close>: the custom validity is written in
  any case, the class and \<open>aria-invalid\<close> when the check fails and \<open>classList.toggle\<close> does
  not throw.
\<close>

definition checked_element :: "string \<Rightarrow> field \<Rightarrow> html_element \<Rightarrow> html_element" where
  "checked_element ec config e =
     (let e0 = set_custom_validity '''' e;
          m = element_message config e;
          e1 = (if validationMessage e0 = '''' \<and> m \<noteq> '''' then set_custom_validity m e0 else e0);
          e2 = (if ec \<noteq> '''' then token_toggled ec True e1 else e1)
      in if m \<noteq> '''' \<and> \<not> has_whitespace ec then e2\<lparr>aria_invalid := Some ''true''\<rparr> else e1)"

text \<open>The elements whose check a trace reports, in order.\<close>

fun checked_elements :: "event list \<Rightarrow> nat list" where
  "checked_elements [] = []"
| "checked_elements (Checked r m # es) = r # checked_elements es"
| "checked_elements (_ # es) = checked_elements es"

text \<open>The events of a trace that belong to checks: calls of validators and messages.\<close>

fun is_check_event :: "event \<Rightarrow> bool" where
  "is_check_event (Validator r i) = True"
| "is_check_event (Checked r m) = True"
| "is_check_event _ = False"

definition check_events_of :: "event list \<Rightarrow> event list" where
  "check_events_of es = filter is_check_event es"

section \<open>Example inputs\<close>

definition signup_form :: "descendant list" where
  "signup_form =
     [\<lparr>tag = ''input'', type_attr = Some ''text'', control_name = ''email''\<rparr>,
      \<lparr>tag = ''input'', type_attr = Some ''checkbox'', control_name = ''terms''\<rparr>,
      \<lparr>tag = ''input'', type_attr = Some ''checkbox'', control_name = ''news''\<rparr>,
      \<lparr>tag = ''input'', type_attr = Some ''CheckBox'', control_name = ''adult''\<rparr>,
      \<lparr>tag = ''input'', type_attr = None, control_name = ''city''\<rparr>,
      \<lparr>tag = ''button'', type_attr = Some ''submit'', control_name = ''send''\<rparr>]"

definition signup_data :: "nat \<Rightarrow> form_data" where
  "signup_data =
     (\<lambda>r. if r = 0 then [(''email'', FdString ''a@b.c''), (''news'', FdString ''on'')] else [])"



text \<open>
  A page with a required but empty \<open>username\<close> input (0), a \<open>message\<close> input (1), a \<open>div\<close>
  with \<open>data-name\<close> (2), and inputs named \<open>street\<close> (3) and \<open>0\<close> (4); validators; and
  contexts in which some of these elements are registered.
\<close>

definition text_input :: "string \<Rightarrow> string \<Rightarrow> string \<Rightarrow> html_element" where
  "text_input n v native =
     \<lparr>name_prop = Some n, dataset_name = None, validity_api = True, willValidate = True,
      native_message = native, custom_message = '''', aria_invalid = None, className = '''',
      in_document = True, el_value = Some v\<rparr>"

definition custom_field :: "string \<Rightarrow> html_element" where
  "custom_field n =
     \<lparr>name_prop = None, dataset_name = Some n, validity_api = False, willValidate = False,
      native_message = '''', custom_message = '''', aria_invalid = None, className = '''',
      in_document = True, el_value = None\<rparr>"

definition min5Characters :: validator where
  "min5Characters el =
     (case el_value el of
        Some v \<Rightarrow> if length v < 5 then Some ''must be at least 5 characters long'' else None
      | None \<Rightarrow> None)"

definition in_a_page :: validator where
  "in_a_page el = (if in_document el then Some ''This widget may not be shown'' else None)"

definition page :: "nat \<Rightarrow> html_element" where
  "page r =
     (if r = 0 then text_input ''username'' '''' ''Please fill out this field.''
      else if r = 1 then text_input ''message'' ''hey'' ''''
      else if r = 2 then custom_field ''customField''
      else if r = 3 then text_input ''street'' ''Main St'' ''''
      else if r = 4 then text_input ''0'' ''first floor'' ''''
      else text_input ''other'' '''' '''')"

definition demo :: form_state where
  "demo = validate 1 (Some [None, Some min5Characters]) (validate 0 None (useForm ''error'' page))"

definition demo_valid :: form_state where
  "demo_valid = fire (Edit 1 ''hello world'' '''') (fire (Edit 0 ''ann'' '''') demo)"

definition spaced :: form_state where
  "spaced =
     validate 1 (Some [None, Some min5Characters]) (validate 0 None (useForm ''has error'' page))"

definition numbered :: form_state where
  "numbered = validate 4 None (validate 3 None (useForm '''' page))"

definition widget :: form_state where
  "widget = validate 2 (Some [Some in_a_page]) (useForm ''error'' page)"

definition accepted :: callback where
  "accepted els = NotAnObject"

definition name_taken :: callback where
  "name_taken els =
     ResultObject [(''username'', Some ''taken''), (''form'', Some ''Something went wrong'')]"

definition blank_message :: callback where
  "blank_message els = ResultObject [(''message'', Some '''')]"


definition rejected :: form_state where
  "rejected = fire (Submit name_taken) demo_valid"

definition blanked :: form_state where
  "blanked = fire (Submit blank_message) demo_valid"

definition unmounted :: form_state where
  "unmounted = fire (Submit accepted) (fire (SetMounted 1 False) demo_valid)"

definition gone :: form_state where
  "gone = fire (SetMounted 0 False) demo"

section \<open>Enumeration and assignment\<close>

lemma set_own_entries: "set (own_entries obj) = set obj"
  by (auto simp: own_entries_def)

lemma distinct_own_entries:
  "distinct (map fst obj) \<Longrightarrow> distinct (map fst (own_entries obj))"
  by (auto simp: own_entries_def distinct_map inj_on_def)


lemma set_own_keys: "set (own_keys obj) = fst ` set obj"
  by (simp add: own_keys_def set_own_entries)

lemma distinct_own_keys: "distinct (map fst obj) \<Longrightarrow> distinct (own_keys obj)"
  by (simp add: own_keys_def distinct_own_entries)







section \<open>Properties of the PocketBase helpers\<close>

subsection \<open>prepareFormDataForPocketbase\<close>

lemma fold_prepare_has:
  "fd_has (fold (\<lambda>input fd. if \<not> fd_has fd (control_name input)
                             then fd_set fd (control_name input) v else fd) cs fd) n
   = (fd_has fd n \<or> n \<in> control_name ` set cs)"
  by (induction cs arbitrary: fd) (auto simp: fd_has_def fd_set_def)

lemma fold_prepare_getAll:
  "fd_getAll (fold (\<lambda>input fd. if \<not> fd_has fd (control_name input)
                                then fd_set fd (control_name input) v else fd) cs fd) n
   = (if fd_has fd n \<or> n \<notin> control_name ` set cs then fd_getAll fd n else [v])"
proof (induction cs arbitrary: fd)
  case Nil
  then show ?case by simp
next
  case (Cons c cs)
  have none: "\<And>fd n. \<not> fd_has fd n \<Longrightarrow> fd_getAll fd n = []"
    by (auto simp: fd_has_def fd_getAll_def filter_empty_conv)
  show ?case
  proof (cases "fd_has fd (control_name c)")
    case True
    then show ?thesis using Cons.IH [of fd] by auto
  next
    case False
    let ?fd1 = "fd @ [(control_name c, v)]"
    have h: "fd_has ?fd1 n = (fd_has fd n \<or> n = control_name c)"
      by (auto simp: fd_has_def)
    have g: "fd_getAll ?fd1 n = fd_getAll fd n @ (if n = control_name c then [v] else [])"
      by (auto simp: fd_getAll_def)
    from False show ?thesis
      using Cons.IH [of ?fd1] h g none [of fd n] by (auto simp: fd_set_def)
  qed
qed

lemma fold_prepare_prefix:
  "\<exists>new. fold (\<lambda>input fd. if \<not> fd_has fd (control_name input)
                           then fd_set fd (control_name input) v else fd) cs fd = fd @ new"
proof (induction cs arbitrary: fd)
  case Nil
  then show ?case by simp
next
  case (Cons c cs)
  show ?case
  proof (cases "fd_has fd (control_name c)")
    case True
    then show ?thesis using Cons.IH [of fd] by simp
  next
    case False
    then show ?thesis
      using Cons.IH [of "fd @ [(control_name c, v)]"] by (auto simp: fd_set_def)
  qed
qed

text \<open>
  Claim C6.  After \<open>prepareFormDataForPocketbase(formData, form)\<close> every checkbox input of
  the form has an entry in \<open>formData\<close> under its name: a name that had entries keeps exactly
  the values it had, a checkbox name that had none has the single value \<open>"false"\<close>, the
  entries of every name that is no checkbox name are unchanged (indeed all former entries
  stay where they were, new ones are appended), and the function returns the reference of
  the very \<open>formData\<close> it was given and touches no other object.
\<close>

theorem prepareFormDataForPocketbase_checkboxes:
  "case prepareFormDataForPocketbase formData form heap of
     (returned, heap') \<Rightarrow>
       returned = formData
       \<and> (\<forall>r. r \<noteq> formData \<longrightarrow> heap' r = heap r)
       \<and> (\<forall>c \<in> set (querySelectorAll_checkbox form). fd_has (heap' formData) (control_name c))
       \<and> (\<forall>n. fd_has (heap formData) n \<longrightarrow>
              fd_getAll (heap' formData) n = fd_getAll (heap formData) n)
       \<and> (\<forall>c \<in> set (querySelectorAll_checkbox form).
              \<not> fd_has (heap formData) (control_name c) \<longrightarrow>
              fd_getAll (heap' formData) (control_name c) = [FdString ''false''])
       \<and> (\<forall>n. n \<notin> control_name ` set (querySelectorAll_checkbox form) \<longrightarrow>
              fd_getAll (heap' formData) n = fd_getAll (heap formData) n)
       \<and> (\<exists>new. heap' formData = heap formData @ new)"
  using fold_prepare_prefix [of "FdString ''false''" "querySelectorAll_checkbox form" "heap formData"]
  by (simp add: prepareFormDataForPocketbase_def fold_prepare_has fold_prepare_getAll)

theorem prepareFormDataForPocketbase_checkboxes_witness:
  "map control_name (querySelectorAll_checkbox signup_form) = [''terms'', ''news'', ''adult'']
   \<and> fd_has (signup_data 0) ''news'' \<and> \<not> fd_has (signup_data 0) ''terms''
   \<and> \<not> fd_has (signup_data 0) ''adult''
   \<and> (case prepareFormDataForPocketbase 0 signup_form signup_data of
        (returned, heap') \<Rightarrow>
          returned = 0
          \<and> fd_has (heap' 0) ''terms'' \<and> fd_has (heap' 0) ''news'' \<and> fd_has (heap' 0) ''adult''
          \<and> fd_getAll (heap' 0) ''news'' = [FdString ''on'']
          \<and> fd_getAll (heap' 0) ''terms'' = [FdString ''false'']
          \<and> fd_getAll (heap' 0) ''adult'' = [FdString ''false'']
          \<and> fd_getAll (heap' 0) ''email'' = [FdString ''a@b.c'']
          \<and> fd_getAll (heap' 0) ''city'' = [])"
proof -
  have cs: "map control_name (querySelectorAll_checkbox signup_form) = [''terms'', ''news'', ''adult'']"
    by code_simp
  then have names: "control_name ` set (querySelectorAll_checkbox signup_form)
      = {''terms'', ''news'', ''adult''}"
    by (metis list.set_map list.simps(15) empty_set)
  obtain c1 c2 c3 where l: "querySelectorAll_checkbox signup_form = [c1, c2, c3]"
    and n: "control_name c1 = ''terms''" "control_name c2 = ''news''" "control_name c3 = ''adult''"
    using cs by auto
  have d: "fd_has (signup_data 0) ''news''" "\<not> fd_has (signup_data 0) ''terms''"
    "\<not> fd_has (signup_data 0) ''adult''" "\<not> fd_has (signup_data 0) ''city''"
    "fd_getAll (signup_data 0) ''news'' = [FdString ''on'']"
    "fd_getAll (signup_data 0) ''email'' = [FdString ''a@b.c'']"
    "fd_getAll (signup_data 0) ''city'' = []"
    by (simp_all add: signup_data_def fd_has_def fd_getAll_def)
  show ?thesis
    using prepareFormDataForPocketbase_checkboxes
            [where formData = 0 and form = signup_form and heap = signup_data] d
    by (auto simp: cs names l n split: prod.splits)
qed

subsection \<open>parsePocketbaseError\<close>






section \<open>Properties of the validation context\<close>

subsection \<open>Class tokens\<close>

lemma has_whitespace_simps [simp]:
  "has_whitespace [] = False"
  "has_whitespace (c # cs) = (is_ascii_whitespace c \<or> has_whitespace cs)"
  "has_whitespace (xs @ ys) = (has_whitespace xs \<or> has_whitespace ys)"
  by (simp_all add: has_whitespace_def)

lemma split_on_whitespace_tokens:
  "t \<in> set (split_on_whitespace acc s) \<Longrightarrow> \<not> has_whitespace acc \<Longrightarrow>
   t \<noteq> [] \<and> \<not> has_whitespace t"
  by (induction acc s rule: split_on_whitespace.induct) (auto split: if_splits)

lemma split_on_whitespace_word:
  "\<not> has_whitespace w \<Longrightarrow>
   split_on_whitespace acc (w @ rest) = split_on_whitespace (acc @ w) rest"
  by (induction w arbitrary: acc) simp_all

lemma split_on_whitespace_serialize:
  "\<forall>t \<in> set ts. t \<noteq> [] \<and> \<not> has_whitespace t \<Longrightarrow>
   split_on_whitespace [] (serialize ts) = ts"
proof (induction ts rule: serialize.induct)
  case 1
  show ?case by simp
next
  case (2 t)
  then show ?case using split_on_whitespace_word [of t "[]" "[]"] by simp
next
  case (3 t u ts)
  then have t: "t \<noteq> []" "\<not> has_whitespace t" by simp_all
  have "split_on_whitespace [] (t @ CHR 0x20 # serialize (u # ts))
      = split_on_whitespace t (CHR 0x20 # serialize (u # ts))"
    using split_on_whitespace_word [OF t(2), of "[]"] by simp
  also have "\<dots> = t # split_on_whitespace [] (serialize (u # ts))"
    using t(1) by (simp add: is_ascii_whitespace_def)
  finally show ?case using 3 by simp
qed

lemma ordered_set_props [simp]:
  "set (ordered_set ts) = set ts"
  "distinct (ordered_set ts)"
  by (simp_all add: ordered_set_def)

lemma ordered_set_distinct: "distinct ts \<Longrightarrow> ordered_set ts = ts"
  by (simp add: ordered_set_def distinct_remdups_id)

lemma classList_tokens:
  "t \<in> set (classList e) \<Longrightarrow> t \<noteq> [] \<and> \<not> has_whitespace t"
  using split_on_whitespace_tokens [of t "[]" "className e"] by (simp add: classList_def)

lemma distinct_classList [simp]: "distinct (classList e)"
  by (simp add: classList_def)

lemma classList_serialize:
  "distinct ts \<Longrightarrow> \<forall>t \<in> set ts. t \<noteq> [] \<and> \<not> has_whitespace t \<Longrightarrow>
   classList (e\<lparr>className := serialize ts\<rparr>) = ts"
  by (simp add: classList_def split_on_whitespace_serialize ordered_set_distinct)

lemma classList_other [simp]:
  "classList (e\<lparr>custom_message := c\<rparr>) = classList e"
  "classList (e\<lparr>aria_invalid := a\<rparr>) = classList e"
  "classList (e\<lparr>in_document := b\<rparr>) = classList e"
  by (simp_all add: classList_def)

lemma token_toggled_static [simp]:
  "name_prop (token_toggled c b e) = name_prop e"
  "dataset_name (token_toggled c b e) = dataset_name e"
  "validity_api (token_toggled c b e) = validity_api e"
  "willValidate (token_toggled c b e) = willValidate e"
  "native_message (token_toggled c b e) = native_message e"
  "custom_message (token_toggled c b e) = custom_message e"
  "in_document (token_toggled c b e) = in_document e"
  "el_value (token_toggled c b e) = el_value e"
  "aria_invalid (token_toggled c b e) = aria_invalid e"
  "field_name (token_toggled c b e) = field_name e"
  "validationMessage (token_toggled c b e) = validationMessage e"
  by (auto simp: token_toggled_def field_name_def validationMessage_def split: option.splits)

lemma token_toggled_added:
  "c \<noteq> [] \<Longrightarrow> \<not> has_whitespace c \<Longrightarrow> c \<in> set (classList (token_toggled c True e))"
proof (cases "c \<in> set (classList e)")
  case True
  then show ?thesis by (simp add: token_toggled_def)
next
  case False
  assume "c \<noteq> []" "\<not> has_whitespace c"
  with False have "classList (e\<lparr>className := serialize (classList e @ [c])\<rparr>) = classList e @ [c]"
    by (intro classList_serialize) (auto dest: classList_tokens)
  with False show ?thesis by (simp add: token_toggled_def)
qed

lemma token_toggled_removed: "c \<notin> set (classList (token_toggled c False e))"
proof (cases "c \<in> set (classList e)")
  case False
  then show ?thesis by (simp add: token_toggled_def)
next
  case True
  have "classList (e\<lparr>className := serialize (removeAll c (classList e))\<rparr>)
      = removeAll c (classList e)"
    by (intro classList_serialize) (auto dest: classList_tokens simp: distinct_removeAll)
  with True show ?thesis by (simp add: token_toggled_def)
qed

lemma no_whitespace_token_in_classList: "has_whitespace c \<Longrightarrow> c \<notin> set (classList e)"
  using classList_tokens [of c e] by blast

subsection \<open>Elements and validators\<close>

lemmas prim_defs = emit_def setIsSubmitting_def setIsSubmitted_def setErrors_def
  update_element_def setCustomValidity_def set_aria_invalid_def focus_and_scroll_def

lemma set_custom_validity_static [simp]:
  "name_prop (set_custom_validity t e) = name_prop e"
  "dataset_name (set_custom_validity t e) = dataset_name e"
  "validity_api (set_custom_validity t e) = validity_api e"
  "willValidate (set_custom_validity t e) = willValidate e"
  "native_message (set_custom_validity t e) = native_message e"
  "in_document (set_custom_validity t e) = in_document e"
  "el_value (set_custom_validity t e) = el_value e"
  "aria_invalid (set_custom_validity t e) = aria_invalid e"
  "classList (set_custom_validity t e) = classList e"
  "field_name (set_custom_validity t e) = field_name e"
  "set_custom_validity t (set_custom_validity u e) = set_custom_validity t e"
  by (simp_all add: set_custom_validity_def field_name_def split: option.splits)

lemma toggle_errorClass_eq:
  "toggle_errorClass r force st =
     (if has_whitespace (errorClass st) then Inl InvalidCharacterError
      else if errorClass st = '''' then Inr st
      else Inr (st\<lparr>elements := (elements st)(r := token_toggled (errorClass st) force (elements st r))\<rparr>))"
  by (auto simp: toggle_errorClass_def classList_toggle_def update_element_def)

lemma validationMessage_set_custom:
  "validationMessage (set_custom_validity t e) =
     (if validity_api e \<and> willValidate e then (if t \<noteq> '''' then t else native_message e) else '''')"
  by (simp add: validationMessage_def set_custom_validity_def)

lemma upto_first_Nil [simp]: "upto_first P [] = []"
  by (simp add: upto_first_def)

lemma upto_first_Cons [simp]:
  "upto_first P (x # xs) = (if P x then [x] else x # upto_first P xs)"
  by (simp add: upto_first_def)

lemma callable_simps [simp]:
  "callable i [] = []"
  "callable i (None # vs) = callable (Suc i) vs"
  "callable i (Some v # vs) = (i, v) # callable (Suc i) vs"
  by (simp_all add: callable_def List.map_filter_simps)

lemma find_callable_shift:
  "map_option snd (List.find (\<lambda>p. P (snd p)) (callable i vs))
   = map_option snd (List.find (\<lambda>p. P (snd p)) (callable j vs))"
proof (induction vs arbitrary: i j)
  case Nil
  then show ?case by simp
next
  case (Cons a vs)
  then show ?case by (cases a) auto
qed

lemma first_answer_simps [simp]:
  "first_answer e [] = ''''"
  "first_answer e (None # vs) = first_answer e vs"
  "first_answer e (Some v # vs) =
     (if truthy (v e) then (case v e of None \<Rightarrow> '''' | Some text \<Rightarrow> text) else first_answer e vs)"
proof -
  have shift: "(case List.find (\<lambda>p. truthy (snd p e)) (callable i vs) of
        None \<Rightarrow> ''''
      | Some p \<Rightarrow> (case snd p e of None \<Rightarrow> '''' | Some text \<Rightarrow> text)) =
     (case List.find (\<lambda>p. truthy (snd p e)) (callable j vs) of
        None \<Rightarrow> ''''
      | Some p \<Rightarrow> (case snd p e of None \<Rightarrow> '''' | Some text \<Rightarrow> text))" for i j vs
    using find_callable_shift [of "\<lambda>v. truthy (v e)" i vs j]
    by (auto split: option.splits)
  show "first_answer e [] = ''''" by (simp add: first_answer_def)
  show "first_answer e (None # vs) = first_answer e vs"
    using shift [of 1 vs 0] by (simp add: first_answer_def)
  show "first_answer e (Some v # vs) =
     (if truthy (v e) then (case v e of None \<Rightarrow> '''' | Some text \<Rightarrow> text) else first_answer e vs)"
    using shift [of 1 vs 0] by (simp add: first_answer_def)
qed

lemma rv_frame [simp]:
  "errors (fst (run_validators r i vs st)) = errors st"
  "isSubmitting (fst (run_validators r i vs st)) = isSubmitting st"
  "isSubmitted (fst (run_validators r i vs st)) = isSubmitted st"
  "registry (fst (run_validators r i vs st)) = registry st"
  "errorClass (fst (run_validators r i vs st)) = errorClass st"
  "handlers (fst (run_validators r i vs st)) = handlers st"
  by (induction r i vs st rule: run_validators.induct; simp add: prim_defs Let_def split: option.splits)+

lemma rv_message:
  "snd (run_validators r i vs st) = first_answer (elements st r) vs"
  by (induction r i vs st rule: run_validators.induct)
     (simp_all add: prim_defs Let_def truthy_def split: option.splits)

lemma rv_elements:
  "elements (fst (run_validators r i vs st)) =
     (if first_answer (elements st r) vs \<noteq> ''''
      then (elements st)(r := set_custom_validity (first_answer (elements st r) vs) (elements st r))
      else elements st)"
  by (induction r i vs st rule: run_validators.induct)
     (simp_all add: prim_defs Let_def truthy_def split: option.splits)

lemma rv_trace:
  "trace (fst (run_validators r i vs st)) =
     trace st @ map (Validator r) (awaited (elements st r) i vs)"
  by (induction r i vs st rule: run_validators.induct)
     (simp_all add: prim_defs Let_def awaited_def truthy_def split: option.splits)

lemma first_answer_source:
  "first_answer e vs \<noteq> '''' \<Longrightarrow> \<exists>v. Some v \<in> set vs \<and> v e = Some (first_answer e vs)"
proof (induction vs)
  case Nil
  then show ?case by simp
next
  case (Cons a vs)
  show ?case
  proof (cases a)
    case None
    with Cons show ?thesis by auto
  next
    case (Some v)
    with Cons show ?thesis
      by (cases "truthy (v e)") (auto simp: truthy_def split: option.splits)
  qed
qed

lemma mergeStoreNode_single [simp]: "mergeStoreNode [(k, v)] s = setProperty k v s"
  by (simp add: mergeStoreNode_def own_keys_def own_entries_def)

lemma checkValid_eq:
  "checkValid config st =
     (st\<lparr>errors := (if check_message config st = '''' \<or> has_whitespace (errorClass st)
                     then errors st
                     else AList.update (field_name (elements st (element config)))
                            (check_message config st) (errors st)),
         elements := (elements st)(element config :=
                        checked_element (errorClass st) config (elements st (element config))),
         trace := trace st @ check_events config (elements st (element config))\<rparr>,
      if check_message config st \<noteq> '''' \<and> has_whitespace (errorClass st)
      then Inl InvalidCharacterError else Inr (check_message config st))"
proof (cases "validationMessage (set_custom_validity '''' (elements st (element config))) = ''''")
  case True
  show ?thesis
  proof (cases "first_answer (set_custom_validity '''' (elements st (element config))) (validators config) = ''''")
    case True
    with \<open>validationMessage _ = ''''\<close> show ?thesis
      by (simp add: checkValid_def check_message_def element_message_def check_events_def
          checked_element_def Let_def split_beta
          prim_defs rv_message rv_elements rv_trace)
  next
    case False
    with \<open>validationMessage _ = ''''\<close> show ?thesis
      by (simp add: checkValid_def check_message_def element_message_def check_events_def
          checked_element_def Let_def split_beta toggle_errorClass_eq
          prim_defs rv_message rv_elements rv_trace setProperty_def)
  qed
next
  case False
  then show ?thesis
    by (simp add: checkValid_def check_message_def element_message_def check_events_def
        checked_element_def Let_def split_beta toggle_errorClass_eq
        prim_defs setProperty_def)
qed

lemma checked_element_static [simp]:
  "name_prop (checked_element ec config e) = name_prop e"
  "dataset_name (checked_element ec config e) = dataset_name e"
  "validity_api (checked_element ec config e) = validity_api e"
  "willValidate (checked_element ec config e) = willValidate e"
  "native_message (checked_element ec config e) = native_message e"
  "in_document (checked_element ec config e) = in_document e"
  "el_value (checked_element ec config e) = el_value e"
  "field_name (checked_element ec config e) = field_name e"
  by (simp_all add: checked_element_def Let_def field_name_def split: option.splits)

lemma cv_outcome [simp]:
  "snd (checkValid config st) =
     (if check_message config st \<noteq> '''' \<and> has_whitespace (errorClass st)
      then Inl InvalidCharacterError else Inr (check_message config st))"
  by (simp add: checkValid_eq)

lemma cv_frame [simp]:
  "isSubmitting (fst (checkValid config st)) = isSubmitting st"
  "isSubmitted (fst (checkValid config st)) = isSubmitted st"
  "registry (fst (checkValid config st)) = registry st"
  "errorClass (fst (checkValid config st)) = errorClass st"
  "handlers (fst (checkValid config st)) = handlers st"
  "trace (fst (checkValid config st)) = trace st @ check_events config (elements st (element config))"
  by (simp_all add: checkValid_eq)

lemma cv_static [simp]:
  "name_prop (elements (fst (checkValid config st)) r) = name_prop (elements st r)"
  "dataset_name (elements (fst (checkValid config st)) r) = dataset_name (elements st r)"
  "validity_api (elements (fst (checkValid config st)) r) = validity_api (elements st r)"
  "willValidate (elements (fst (checkValid config st)) r) = willValidate (elements st r)"
  "native_message (elements (fst (checkValid config st)) r) = native_message (elements st r)"
  "in_document (elements (fst (checkValid config st)) r) = in_document (elements st r)"
  "el_value (elements (fst (checkValid config st)) r) = el_value (elements st r)"
  "field_name (elements (fst (checkValid config st)) r) = field_name (elements st r)"
  by (simp_all add: checkValid_eq)

lemma cv_elements_other:
  "r \<noteq> element config \<Longrightarrow> elements (fst (checkValid config st)) r = elements st r"
  by (simp add: checkValid_eq)

lemma validationMessage_checked_element:
  "validationMessage (checked_element ec config e) =
     (if validity_api e \<and> willValidate e then element_message config e else '''')"
proof (cases "validity_api e \<and> willValidate e")
  case True
  then show ?thesis
    by (simp add: checked_element_def element_message_def Let_def validationMessage_def
        set_custom_validity_def token_toggled_def)
next
  case False
  then show ?thesis
    by (auto simp: checked_element_def element_message_def Let_def validationMessage_def
        set_custom_validity_def token_toggled_def)
qed

lemma cv_validationMessage:
  "validationMessage (elements (fst (checkValid config st)) (element config)) =
     (if validity_api (elements st (element config)) \<and> willValidate (elements st (element config))
      then check_message config st else '''')"
  by (simp add: checkValid_eq validationMessage_checked_element check_message_def)

lemma element_message_native:
  "validationMessage (elements (fst (checkValid config st)) (element config)) \<noteq> '''' \<Longrightarrow>
   check_message config st \<noteq> ''''"
  by (simp add: cv_validationMessage split: if_splits)

lemma check_events_members [simp]:
  "Checked r m \<in> set (check_events config e) \<longleftrightarrow> r = element config \<and> m = element_message config e"
  "Callback \<notin> set (check_events config e)"
  "SetIsSubmitting b \<notin> set (check_events config e)"
  "SetIsSubmitted b \<notin> set (check_events config e)"
  "Focus r \<notin> set (check_events config e)"
  "ScrollIntoView r \<notin> set (check_events config e)"
  by (auto simp: check_events_def)

subsection \<open>Reading the registry\<close>

lemma get_property_Own:
  "get_property obj k = Own v \<longleftrightarrow> map_of obj k = Some v"
  by (simp add: get_property_def split: option.splits)

lemma get_property_Missing:
  "get_property obj k = Missing \<longleftrightarrow> map_of obj k = None \<and> k \<notin> set object_prototype_names"
  by (simp add: get_property_def split: option.splits)


lemma get_property_cong:
  "map_of obj k = map_of obj' k \<Longrightarrow> get_property obj k = get_property obj' k"
  by (simp add: get_property_def)

subsection \<open>The loop of submit\<close>

lemma focus_and_scroll_simps [simp]:
  "errors (focus_and_scroll r st) = errors st"
  "isSubmitting (focus_and_scroll r st) = isSubmitting st"
  "isSubmitted (focus_and_scroll r st) = isSubmitted st"
  "registry (focus_and_scroll r st) = registry st"
  "errorClass (focus_and_scroll r st) = errorClass st"
  "handlers (focus_and_scroll r st) = handlers st"
  "elements (focus_and_scroll r st) = elements st"
  "trace (focus_and_scroll r st) = trace st @ [Focus r, ScrollIntoView r]"
  by (simp_all add: focus_and_scroll_def emit_def)

lemma sf_Missing:
  "get_property (registry st) k = Missing \<Longrightarrow>
   submit_fields (k # ks) errored st = submit_fields ks errored st"
  by simp

lemma sf_Inherited:
  "get_property (registry st) k = Inherited \<Longrightarrow>
   submit_fields (k # ks) errored st = (st, Inl TypeError)"
  by simp

lemma sf_Own:
  "map_of (registry st) k = Some fld \<Longrightarrow>
   submit_fields (k # ks) errored st =
     (if check_message fld st \<noteq> '''' \<and> has_whitespace (errorClass st)
      then (fst (checkValid fld st), Inl InvalidCharacterError)
      else submit_fields ks
             (errored \<or> check_message fld st \<noteq> '''' \<and> in_document (elements st (element fld)))
             (if \<not> errored \<and> check_message fld st \<noteq> '''' then
                (if in_document (elements st (element fld))
                 then focus_and_scroll (element fld) (fst (checkValid fld st))
                 else focus_and_scroll (element fld) (fst (checkValid fld st))
                        \<lparr>registry := AList.delete k (registry st)\<rparr>)
              else fst (checkValid fld st)))"
proof -
  assume "map_of (registry st) k = Some fld"
  then have own: "get_property (registry st) k = Own fld" by (simp add: get_property_Own)
  show ?thesis
    by (cases "check_message fld st = ''''"; cases errored;
        cases "in_document (elements st (element fld))";
        cases "has_whitespace (errorClass st)")
       (simp_all add: own split_beta Let_def cv_validationMessage)
qed

text \<open>
  A relation that holds across every step of the loop holds across the loop, whether it runs
  to its end or is ended by a throw.
\<close>

lemma sf_rel:
  assumes refl: "\<And>s. Q s s"
    and trans: "\<And>s1 s2 s3. Q s1 s2 \<Longrightarrow> Q s2 s3 \<Longrightarrow> Q s1 s3"
    and check: "\<And>fld s. Q s (fst (checkValid fld s))"
    and focus: "\<And>r s. Q s (focus_and_scroll r s)"
    and del: "\<And>k fld s. map_of (registry s) k = Some fld \<Longrightarrow>
                \<not> in_document (elements s (element fld)) \<Longrightarrow>
                Q s (s\<lparr>registry := AList.delete k (registry s)\<rparr>)"
  shows "Q st (fst (submit_fields ks errored st))"
proof (induction ks arbitrary: errored st)
  case Nil
  show ?case by (simp add: refl)
next
  case (Cons k ks)
  show ?case
  proof (cases "get_property (registry st) k")
    case Missing
    then show ?thesis using Cons [of st errored] by (simp del: submit_fields.simps add: sf_Missing)
  next
    case Inherited
    then show ?thesis by (simp del: submit_fields.simps add: sf_Inherited refl)
  next
    case (Own fld)
    then have own: "map_of (registry st) k = Some fld" by (simp add: get_property_Own)
    let ?st1 = "fst (checkValid fld st)"
    let ?st2 = "focus_and_scroll (element fld) ?st1"
    let ?st3 = "?st2\<lparr>registry := AList.delete k (registry ?st2)\<rparr>"
    have q1: "Q st ?st1" by (rule check)
    have q2: "Q st ?st2" using q1 focus by (rule trans)
    have "Q ?st2 ?st3" if "\<not> in_document (elements st (element fld))"
      using own that by (intro del [of _ _ fld]) simp_all
    with q2 have q3: "Q st ?st3" if "\<not> in_document (elements st (element fld))"
      using that trans by blast
    show ?thesis
    proof (cases "check_message fld st \<noteq> '''' \<and> has_whitespace (errorClass st)")
      case True
      then show ?thesis using q1 by (simp del: submit_fields.simps add: sf_Own [OF own])
    next
      case False
      have "\<exists>s b. submit_fields (k # ks) errored st = submit_fields ks b s \<and> Q st s"
      proof (cases "\<not> errored \<and> check_message fld st \<noteq> ''''")
        case nofail: False
        then have "submit_fields (k # ks) errored st
            = submit_fields ks
                (errored \<or> check_message fld st \<noteq> '''' \<and> in_document (elements st (element fld)))
                ?st1"
          using False by (auto simp del: submit_fields.simps simp add: sf_Own [OF own])
        with q1 show ?thesis by blast
      next
        case fail: True
        show ?thesis
        proof (cases "in_document (elements st (element fld))")
          case mounted: True
          then have "submit_fields (k # ks) errored st = submit_fields ks True ?st2"
            using False fail by (simp del: submit_fields.simps add: sf_Own [OF own])
          with q2 show ?thesis by blast
        next
          case gone: False
          then have "submit_fields (k # ks) errored st = submit_fields ks False ?st3"
            using False fail by (simp del: submit_fields.simps add: sf_Own [OF own])
          with q3 [OF gone] show ?thesis by blast
        qed
      qed
      then obtain s b where eq: "submit_fields (k # ks) errored st = submit_fields ks b s"
        and q: "Q st s" by blast
      from q Cons [of s b] show ?thesis unfolding eq by (rule trans)
    qed
  qed
qed

lemma sf_frame [simp]:
  "isSubmitting (fst (submit_fields ks errored st)) = isSubmitting st"
  "isSubmitted (fst (submit_fields ks errored st)) = isSubmitted st"
  "errorClass (fst (submit_fields ks errored st)) = errorClass st"
  "handlers (fst (submit_fields ks errored st)) = handlers st"
proof -
  show "isSubmitting (fst (submit_fields ks errored st)) = isSubmitting st"
    by (rule sf_rel [where Q = "\<lambda>s s'. isSubmitting s' = isSubmitting s"]) simp_all
  show "isSubmitted (fst (submit_fields ks errored st)) = isSubmitted st"
    by (rule sf_rel [where Q = "\<lambda>s s'. isSubmitted s' = isSubmitted s"]) simp_all
  show "errorClass (fst (submit_fields ks errored st)) = errorClass st"
    by (rule sf_rel [where Q = "\<lambda>s s'. errorClass s' = errorClass s"]) simp_all
  show "handlers (fst (submit_fields ks errored st)) = handlers st"
    by (rule sf_rel [where Q = "\<lambda>s s'. handlers s' = handlers s"]) simp_all
qed

lemma sf_static [simp]:
  "in_document (elements (fst (submit_fields ks errored st)) r) = in_document (elements st r)"
  "field_name (elements (fst (submit_fields ks errored st)) r) = field_name (elements st r)"
proof -
  show "in_document (elements (fst (submit_fields ks errored st)) r) = in_document (elements st r)"
    by (rule sf_rel [where Q = "\<lambda>s s'. in_document (elements s' r) = in_document (elements s r)"])
       simp_all
  show "field_name (elements (fst (submit_fields ks errored st)) r) = field_name (elements st r)"
    by (rule sf_rel [where Q = "\<lambda>s s'. field_name (elements s' r) = field_name (elements s r)"])
       simp_all
qed

text \<open>One turn of the loop, when its first key is a field whose check does not throw.\<close>

lemma sf_step:
  assumes own: "map_of (registry st) k = Some fld"
    and ok: "check_message fld st = '''' \<or> \<not> has_whitespace (errorClass st)"
  shows "\<exists>s. submit_fields (k # ks) errored st =
           submit_fields ks
             (errored \<or> check_message fld st \<noteq> '''' \<and> in_document (elements st (element fld))) s
      \<and> trace s = trace st @ check_events fld (elements st (element fld))
          @ (if \<not> errored \<and> check_message fld st \<noteq> ''''
             then [Focus (element fld), ScrollIntoView (element fld)] else [])
      \<and> errorClass s = errorClass st
      \<and> errors s = errors (fst (checkValid fld st))
      \<and> elements s = elements (fst (checkValid fld st))
      \<and> (\<forall>k'. k' \<noteq> k \<longrightarrow> map_of (registry s) k' = map_of (registry st) k')
      \<and> (check_message fld st = '''' \<longrightarrow> registry s = registry st)"
proof -
  let ?r = "element fld"
  let ?m = "check_message fld st"
  let ?st1 = "fst (checkValid fld st)"
  let ?b = "errored \<or> ?m \<noteq> '''' \<and> in_document (elements st ?r)"
  let ?s = "if \<not> errored \<and> ?m \<noteq> '''' then
            (if in_document (elements st ?r)
             then focus_and_scroll ?r ?st1
             else focus_and_scroll ?r ?st1\<lparr>registry := AList.delete k (registry st)\<rparr>)
          else ?st1"
  have eq: "submit_fields (k # ks) errored st = submit_fields ks ?b ?s"
    using ok by (auto simp del: submit_fields.simps simp add: sf_Own [OF own])
  moreover have "trace ?s = trace st @ check_events fld (elements st (element fld))
          @ (if \<not> errored \<and> check_message fld st \<noteq> ''''
             then [Focus (element fld), ScrollIntoView (element fld)] else [])"
    by simp
  moreover have "\<forall>k'. k' \<noteq> k \<longrightarrow> map_of (registry ?s) k' = map_of (registry st) k'"
    by (simp add: delete_conv')
  moreover have "errorClass ?s = errorClass st" "errors ?s = errors ?st1"
    "elements ?s = elements ?st1" "?m = '''' \<longrightarrow> registry ?s = registry st"
    by simp_all
  ultimately show ?thesis by (intro exI [of _ ?s] conjI)
qed

lemma sf_throws:
  "map_of (registry st) k = Some fld \<Longrightarrow>
   check_message fld st \<noteq> '''' \<Longrightarrow> has_whitespace (errorClass st) \<Longrightarrow>
   submit_fields (k # ks) errored st = (fst (checkValid fld st), Inl InvalidCharacterError)"
  by (simp del: submit_fields.simps add: sf_Own)

lemma sf_trace:
  "\<exists>es. trace (fst (submit_fields ks errored st)) = trace st @ es
     \<and> Callback \<notin> set es \<and> (\<forall>b. SetIsSubmitting b \<notin> set es) \<and> (\<forall>b. SetIsSubmitted b \<notin> set es)
     \<and> (\<forall>b. snd (submit_fields ks errored st) = Inr b \<longrightarrow>
          b = (errored \<or> (\<exists>r m. Checked r m \<in> set es \<and> m \<noteq> '''' \<and> in_document (elements st r))))"
proof (induction ks arbitrary: errored st)
  case Nil
  show ?case by simp
next
  case (Cons k ks)
  show ?case
  proof (cases "get_property (registry st) k")
    case Missing
    with Cons [of errored st] show ?thesis by (simp del: submit_fields.simps add: sf_Missing)
  next
    case Inherited
    then show ?thesis by (simp del: submit_fields.simps add: sf_Inherited)
  next
    case (Own fld)
    then have own: "map_of (registry st) k = Some fld" by (simp add: get_property_Own)
    let ?r = "element fld"
    let ?m = "check_message fld st"
    let ?ce = "check_events fld (elements st ?r)"
    show ?thesis
    proof (cases "?m = '''' \<or> \<not> has_whitespace (errorClass st)")
      case False
      then have "submit_fields (k # ks) errored st
          = (fst (checkValid fld st), Inl InvalidCharacterError)"
        using own by (intro sf_throws) simp_all
      then show ?thesis by (intro exI [of _ ?ce]) simp
    next
      case True
      define b where "b = (errored \<or> ?m \<noteq> '''' \<and> in_document (elements st ?r))"
      define extra where
        "extra = (if \<not> errored \<and> ?m \<noteq> '''' then [Focus ?r, ScrollIntoView ?r] else [])"
      from sf_step [OF own True, of ks errored] obtain s where
        eq: "submit_fields (k # ks) errored st = submit_fields ks b s"
        and ts: "trace s = trace st @ ?ce @ extra"
        and els: "elements s = elements (fst (checkValid fld st))"
        unfolding b_def extra_def by blast
      have doc: "in_document (elements s r) = in_document (elements st r)" for r
        by (simp add: els)
      from Cons [of b s] obtain es where
        es: "trace (fst (submit_fields ks b s)) = trace s @ es"
          "Callback \<notin> set es" "\<forall>b. SetIsSubmitting b \<notin> set es" "\<forall>b. SetIsSubmitted b \<notin> set es"
          "\<forall>b'. snd (submit_fields ks b s) = Inr b' \<longrightarrow>
             b' = (b \<or> (\<exists>r m. Checked r m \<in> set es \<and> m \<noteq> '''' \<and> in_document (elements s r)))"
        by blast
      have ex: "Callback \<notin> set extra" "\<forall>b. SetIsSubmitting b \<notin> set extra"
        "\<forall>b. SetIsSubmitted b \<notin> set extra" "\<forall>r m. Checked r m \<notin> set extra"
        by (simp_all add: extra_def)
      let ?es = "?ce @ extra @ es"
      have "trace (fst (submit_fields (k # ks) errored st)) = trace st @ ?es"
        unfolding eq es(1) ts by simp
      moreover have "Callback \<notin> set ?es" "\<forall>b. SetIsSubmitting b \<notin> set ?es"
        "\<forall>b. SetIsSubmitted b \<notin> set ?es"
        using es(2-4) ex by auto
      moreover have "\<forall>b'. snd (submit_fields (k # ks) errored st) = Inr b' \<longrightarrow>
          b' = (errored \<or> (\<exists>r m. Checked r m \<in> set ?es \<and> m \<noteq> '''' \<and> in_document (elements st r)))"
      proof (intro allI impI)
        fix b' assume "snd (submit_fields (k # ks) errored st) = Inr b'"
        then have "b' = (b \<or> (\<exists>r m. Checked r m \<in> set es \<and> m \<noteq> '''' \<and> in_document (elements st r)))"
          using es(5) unfolding eq doc by blast
        then show "b' = (errored \<or> (\<exists>r m. Checked r m \<in> set ?es \<and> m \<noteq> ''''
            \<and> in_document (elements st r)))"
          using ex(4) by (auto simp: b_def check_message_def)
      qed
      ultimately show ?thesis by blast
    qed
  qed
qed

lemma events_append: "trace st' = trace st @ es \<Longrightarrow> events st st' = es"
  by (simp add: events_def)

lemma sf_events:
  "trace (fst (submit_fields ks errored st)) =
     trace st @ events st (fst (submit_fields ks errored st))"
  using sf_trace [of ks errored st] by (auto simp: events_def)

lemma events_trans:
  "trace st1 = trace st @ es1 \<Longrightarrow> trace st2 = trace st1 @ es2 \<Longrightarrow>
   events st st2 = events st st1 @ events st1 st2"
  by (simp add: events_def)

text \<open>The events of the loop, when its first key is a field whose check does not throw.\<close>

lemma sf_events_Own:
  assumes own: "map_of (registry st) k = Some fld"
    and ok: "check_message fld st = '''' \<or> \<not> has_whitespace (errorClass st)"
  shows "\<exists>s b. submit_fields (k # ks) errored st = submit_fields ks b s
      \<and> events st (fst (submit_fields (k # ks) errored st)) =
          check_events fld (elements st (element fld))
          @ (if \<not> errored \<and> check_message fld st \<noteq> ''''
             then [Focus (element fld), ScrollIntoView (element fld)] else [])
          @ events s (fst (submit_fields ks b s))
      \<and> errorClass s = errorClass st
      \<and> errors s = errors (fst (checkValid fld st))
      \<and> elements s = elements (fst (checkValid fld st))
      \<and> (\<forall>k'. k' \<noteq> k \<longrightarrow> map_of (registry s) k' = map_of (registry st) k')
      \<and> (check_message fld st = '''' \<longrightarrow> registry s = registry st \<and> b = errored)"
proof -
  define b where
    "b = (errored \<or> check_message fld st \<noteq> '''' \<and> in_document (elements st (element fld)))"
  define extra where
    "extra = (if \<not> errored \<and> check_message fld st \<noteq> ''''
              then [Focus (element fld), ScrollIntoView (element fld)] else [])"
  from sf_step [OF own ok, of ks errored] obtain s where
    eq: "submit_fields (k # ks) errored st = submit_fields ks b s"
    and ts: "trace s = trace st @ (check_events fld (elements st (element fld)) @ extra)"
    and rest: "errorClass s = errorClass st" "errors s = errors (fst (checkValid fld st))"
      "elements s = elements (fst (checkValid fld st))"
      "\<forall>k'. k' \<noteq> k \<longrightarrow> map_of (registry s) k' = map_of (registry st) k'"
      "check_message fld st = '''' \<longrightarrow> registry s = registry st"
    unfolding b_def extra_def by auto
  have "events st (fst (submit_fields ks b s)) = events st s @ events s (fst (submit_fields ks b s))"
    using ts sf_events [of ks b s] by (rule events_trans)
  moreover have "events st s = check_events fld (elements st (element fld)) @ extra"
    using ts by (rule events_append)
  ultimately have ev: "events st (fst (submit_fields (k # ks) errored st)) =
      check_events fld (elements st (element fld)) @ extra @ events s (fst (submit_fields ks b s))"
    unfolding eq by simp
  have "check_message fld st = '''' \<longrightarrow> b = errored" by (simp add: b_def)
  with eq ev rest show ?thesis unfolding extra_def by blast
qed





subsection \<open>The error store and submit\<close>

lemma map_of_setProperty: "map_of (setProperty a v s) = (map_of s)(a := v)"
  by (cases v) (simp_all add: setProperty_def update_conv' delete_conv')

lemma map_of_fold_setProperty:
  "map_of (fold (\<lambda>key. setProperty key (g key)) ks s) k =
     (if k \<in> set ks then g k else map_of s k)"
  by (induction ks arbitrary: s) (simp_all add: map_of_setProperty)

lemma map_of_mergeStoreNode:
  "map_of (mergeStoreNode val s) k =
     (case map_of val k of None \<Rightarrow> map_of s k | Some v \<Rightarrow> v)"
proof -
  have "k \<in> fst ` set val \<longleftrightarrow> map_of val k \<noteq> None"
    by (simp add: map_of_eq_None_iff)
  then show ?thesis
    by (auto simp: mergeStoreNode_def map_of_fold_setProperty set_own_keys split: option.splits)
qed

lemma errors_clearErrors [simp]: "errors (clearErrors st) = []"
proof -
  let ?val = "map (\<lambda>p. (fst p, None :: string option)) (own_entries (errors st))"
  have "map_of (mergeStoreNode ?val (errors st)) k = None" for k
  proof (cases "map_of (errors st) k")
    case None
    then have "map_of ?val k = None"
      by (simp add: map_of_eq_None_iff set_own_entries image_image)
    with None show ?thesis by (simp add: map_of_mergeStoreNode)
  next
    case (Some v)
    then have "k \<in> fst ` set ?val"
      by (auto simp: set_own_entries image_image dest!: map_of_SomeD intro!: rev_image_eqI)
    then obtain w where "map_of ?val k = Some w"
      by (cases "map_of ?val k") (auto simp: map_of_eq_None_iff)
    moreover from this have "w = None" by (auto dest!: map_of_SomeD)
    ultimately show ?thesis by (simp add: map_of_mergeStoreNode)
  qed
  then have "map_of (mergeStoreNode ?val (errors st)) = Map.empty" by (rule ext)
  then show ?thesis by (simp add: clearErrors_def setErrors_def)
qed

lemma clearErrors_frame [simp]:
  "isSubmitting (clearErrors st) = isSubmitting st"
  "isSubmitted (clearErrors st) = isSubmitted st"
  "registry (clearErrors st) = registry st"
  "errorClass (clearErrors st) = errorClass st"
  "handlers (clearErrors st) = handlers st"
  "elements (clearErrors st) = elements st"
  "trace (clearErrors st) = trace st"
  by (simp_all add: clearErrors_def setErrors_def)

lemma set_aria_invalid_simps [simp]:
  "errors (set_aria_invalid r v st) = errors st"
  "isSubmitting (set_aria_invalid r v st) = isSubmitting st"
  "isSubmitted (set_aria_invalid r v st) = isSubmitted st"
  "registry (set_aria_invalid r v st) = registry st"
  "errorClass (set_aria_invalid r v st) = errorClass st"
  "handlers (set_aria_invalid r v st) = handlers st"
  "trace (set_aria_invalid r v st) = trace st"
  "in_document (elements (set_aria_invalid r v st) r') = in_document (elements st r')"
  "field_name (elements (set_aria_invalid r v st) r') = field_name (elements st r')"
  "aria_invalid (elements (set_aria_invalid r v st) r') =
     (if r' = r then Some v else aria_invalid (elements st r'))"
  by (auto simp: set_aria_invalid_def update_element_def field_name_def split: option.splits)

lemma mark_invalid_rel:
  assumes refl: "\<And>s. Q s s"
    and trans: "\<And>s1 s2 s3. Q s1 s2 \<Longrightarrow> Q s2 s3 \<Longrightarrow> Q s1 s3"
    and mark: "\<And>r s. Q s (set_aria_invalid r ''true'' s)"
  shows "Q st (fst (mark_invalid names st))"
proof (induction names arbitrary: st)
  case Nil
  show ?case by (simp add: refl)
next
  case (Cons name names)
  show ?case
  proof (cases "get_property (registry st) name")
    case (Own fld)
    have "Q st (set_aria_invalid (element fld) ''true'' st)" by (rule mark)
    from this Cons [of "set_aria_invalid (element fld) ''true'' st"]
    have "Q st (fst (mark_invalid names (set_aria_invalid (element fld) ''true'' st)))"
      by (rule trans)
    with Own show ?thesis by simp
  next
    case Inherited
    then show ?thesis by (simp add: refl)
  next
    case Missing
    with Cons [of st] show ?thesis by simp
  qed
qed

lemma mark_invalid_frame [simp]:
  "errors (fst (mark_invalid names st)) = errors st"
  "isSubmitting (fst (mark_invalid names st)) = isSubmitting st"
  "isSubmitted (fst (mark_invalid names st)) = isSubmitted st"
  "registry (fst (mark_invalid names st)) = registry st"
  "errorClass (fst (mark_invalid names st)) = errorClass st"
  "handlers (fst (mark_invalid names st)) = handlers st"
  "trace (fst (mark_invalid names st)) = trace st"
  "in_document (elements (fst (mark_invalid names st)) r) = in_document (elements st r)"
  "field_name (elements (fst (mark_invalid names st)) r) = field_name (elements st r)"
proof -
  show "errors (fst (mark_invalid names st)) = errors st"
    by (rule mark_invalid_rel [where Q = "\<lambda>s s'. errors s' = errors s"]) simp_all
  show "isSubmitting (fst (mark_invalid names st)) = isSubmitting st"
    by (rule mark_invalid_rel [where Q = "\<lambda>s s'. isSubmitting s' = isSubmitting s"]) simp_all
  show "isSubmitted (fst (mark_invalid names st)) = isSubmitted st"
    by (rule mark_invalid_rel [where Q = "\<lambda>s s'. isSubmitted s' = isSubmitted s"]) simp_all
  show "registry (fst (mark_invalid names st)) = registry st"
    by (rule mark_invalid_rel [where Q = "\<lambda>s s'. registry s' = registry s"]) simp_all
  show "errorClass (fst (mark_invalid names st)) = errorClass st"
    by (rule mark_invalid_rel [where Q = "\<lambda>s s'. errorClass s' = errorClass s"]) simp_all
  show "handlers (fst (mark_invalid names st)) = handlers st"
    by (rule mark_invalid_rel [where Q = "\<lambda>s s'. handlers s' = handlers s"]) simp_all
  show "trace (fst (mark_invalid names st)) = trace st"
    by (rule mark_invalid_rel [where Q = "\<lambda>s s'. trace s' = trace s"]) simp_all
  show "in_document (elements (fst (mark_invalid names st)) r) = in_document (elements st r)"
    by (rule mark_invalid_rel
          [where Q = "\<lambda>s s'. in_document (elements s' r) = in_document (elements s r)"]) simp_all
  show "field_name (elements (fst (mark_invalid names st)) r) = field_name (elements st r)"
    by (rule mark_invalid_rel
          [where Q = "\<lambda>s s'. field_name (elements s' r) = field_name (elements s r)"]) simp_all
qed




lemma setErrors_frame [simp]:
  "isSubmitting (setErrors val st) = isSubmitting st"
  "isSubmitted (setErrors val st) = isSubmitted st"
  "registry (setErrors val st) = registry st"
  "errorClass (setErrors val st) = errorClass st"
  "handlers (setErrors val st) = handlers st"
  "elements (setErrors val st) = elements st"
  "trace (setErrors val st) = trace st"
  "errors (setErrors val st) = mergeStoreNode val (errors st)"
  by (simp_all add: setErrors_def)

lemma submit_errored:
  "snd (submit_fields (own_keys (registry st)) False st) \<noteq> Inr False \<Longrightarrow>
   fst (submit callback st) = fst (submit_fields (own_keys (registry st)) False st)"
  by (cases "snd (submit_fields (own_keys (registry st)) False st)")
     (auto simp: submit_def split_beta)

lemma submit_passed:
  "snd (submit_fields (own_keys (registry st)) False st) = Inr False \<Longrightarrow>
   submit callback st =
     (let st1 = fst (submit_fields (own_keys (registry st)) False st);
          st3 = st1\<lparr>isSubmitting := False,
                    trace := trace st1 @ [SetIsSubmitting True, Callback, SetIsSubmitting False]\<rparr>
      in case callback (elements st1) of
           ResultObject obj \<Rightarrow>
             (case snd (mark_invalid (own_keys obj) st3) of
                Inl err \<Rightarrow> (fst (mark_invalid (own_keys obj) st3), Inl err)
              | Inr u \<Rightarrow> (setErrors obj (fst (mark_invalid (own_keys obj) st3)), Inr ()))
         | NotAnObject \<Rightarrow>
             ((clearErrors st3)\<lparr>isSubmitted := True,
                                trace := trace st3 @ [SetIsSubmitted True]\<rparr>, Inr ()))"
  by (simp add: submit_def split_beta Let_def setIsSubmitting_def setIsSubmitted_def emit_def
      split: callback_result.splits sum.splits)

lemma submit_trace:
  "\<exists>es tail. trace (fst (submit_fields (own_keys (registry st)) False st)) = trace st @ es
     \<and> trace (fst (submit callback st)) = trace st @ es @ tail
     \<and> Callback \<notin> set es \<and> (\<forall>b. SetIsSubmitting b \<notin> set es)
     \<and> (\<forall>b. snd (submit_fields (own_keys (registry st)) False st) = Inr b \<longrightarrow>
          b = (\<exists>r m. Checked r m \<in> set es \<and> m \<noteq> '''' \<and> in_document (elements st r)))
     \<and> (\<forall>r m. Checked r m \<notin> set tail) \<and> (\<forall>r i. Validator r i \<notin> set tail)
     \<and> (if snd (submit_fields (own_keys (registry st)) False st) = Inr False
         then count_list tail Callback = 1 else tail = [])"
proof -
  let ?L = "submit_fields (own_keys (registry st)) False st"
  from sf_trace [of "own_keys (registry st)" False st] obtain es where
    es: "trace (fst ?L) = trace st @ es" "Callback \<notin> set es" "\<forall>b. SetIsSubmitting b \<notin> set es"
      "\<forall>b. snd ?L = Inr b \<longrightarrow>
         b = (\<exists>r m. Checked r m \<in> set es \<and> m \<noteq> '''' \<and> in_document (elements st r))"
    by auto
  show ?thesis
  proof (cases "snd ?L = Inr False")
    case False
    then have "trace (fst (submit callback st)) = trace st @ es @ []"
      using es(1) by (simp add: submit_errored)
    with es False show ?thesis by (intro exI [of _ es] exI [of _ "[]"]) simp
  next
    case True
    show ?thesis
    proof (cases "callback (elements (fst ?L))")
      case NotAnObject
      let ?tail = "[SetIsSubmitting True, Callback, SetIsSubmitting False, SetIsSubmitted True]"
      have "trace (fst (submit callback st)) = trace st @ es @ ?tail"
        using True NotAnObject es(1) by (simp add: submit_passed Let_def)
      moreover have "\<forall>r m. Checked r m \<notin> set ?tail" "\<forall>r i. Validator r i \<notin> set ?tail"
        "count_list ?tail Callback = 1" by simp_all
      ultimately show ?thesis using es True by (intro exI [of _ es] exI [of _ ?tail]) simp
    next
      case (ResultObject obj)
      let ?tail = "[SetIsSubmitting True, Callback, SetIsSubmitting False]"
      have "trace (fst (submit callback st)) = trace st @ es @ ?tail"
        using True ResultObject es(1) by (simp add: submit_passed Let_def split: sum.splits)
      moreover have "\<forall>r m. Checked r m \<notin> set ?tail" "\<forall>r i. Validator r i \<notin> set ?tail"
        "count_list ?tail Callback = 1" by simp_all
      ultimately show ?thesis using es True by (intro exI [of _ es] exI [of _ ?tail]) simp
    qed
  qed
qed

text \<open>
  Claim C3.  If during a submit pass the check of some field reports a failure message for an
  element that is in the document, then the submit callback is not invoked, \<open>isSubmitting\<close>
  is never set during the pass and keeps its value, and \<open>isSubmitted\<close> keeps its value (so
  both remain false when they were false).  The checks of a pass are those of the registered
  fields.
\<close>

theorem submit_failure_blocks_callback:
  assumes "Checked r m \<in> set (events st (fst (submit callback st)))"
    and "m \<noteq> ''''" and "in_document (elements st r)"
  shows "Callback \<notin> set (events st (fst (submit callback st)))
     \<and> (\<forall>b. SetIsSubmitting b \<notin> set (events st (fst (submit callback st))))
     \<and> isSubmitting (fst (submit callback st)) = isSubmitting st
     \<and> isSubmitted (fst (submit callback st)) = isSubmitted st"
proof -
  let ?L = "submit_fields (own_keys (registry st)) False st"
  from submit_trace [of st callback] obtain es tail where
    t: "trace (fst (submit callback st)) = trace st @ es @ tail"
      "Callback \<notin> set es" "\<forall>b. SetIsSubmitting b \<notin> set es"
      "\<forall>b. snd ?L = Inr b \<longrightarrow>
         b = (\<exists>r m. Checked r m \<in> set es \<and> m \<noteq> '''' \<and> in_document (elements st r))"
      "\<forall>r m. Checked r m \<notin> set tail"
      "if snd ?L = Inr False then count_list tail Callback = 1 else tail = []"
    by blast
  have ev: "events st (fst (submit callback st)) = es @ tail"
    using t(1) by (simp add: events_def)
  from assms(1) t(5) have "Checked r m \<in> set es" by (auto simp: ev)
  with assms(2,3) t(4) have errored: "snd ?L \<noteq> Inr False" by blast
  with t(6) have "tail = []" by simp
  with ev t(2,3) errored show ?thesis by (simp add: submit_errored)
qed


subsection \<open>The order of the checks and the registry\<close>

lemma checked_elements_append [simp]:
  "checked_elements (xs @ ys) = checked_elements xs @ checked_elements ys"
  by (induction xs rule: checked_elements.induct) simp_all

lemma checked_elements_validators [simp]:
  "checked_elements (map (Validator r) vs) = []"
  by (induction vs) simp_all

lemma checked_elements_check_events [simp]:
  "checked_elements (check_events config e) = [element config]"
  by (simp add: check_events_def)

lemma check_events_of_append [simp]:
  "check_events_of (xs @ ys) = check_events_of xs @ check_events_of ys"
  by (simp add: check_events_of_def)

lemma check_events_of_check_events [simp]:
  "check_events_of (check_events config e) = check_events config e"
  by (simp add: check_events_of_def check_events_def)

lemma check_events_of_simps [simp]:
  "check_events_of [] = []"
  "check_events_of [Focus r, ScrollIntoView r] = []"
  by (simp_all add: check_events_of_def)

lemma no_check_events:
  "\<forall>r m. Checked r m \<notin> set es \<Longrightarrow> \<forall>r i. Validator r i \<notin> set es \<Longrightarrow>
   check_events_of es = [] \<and> checked_elements es = []"
proof (induction es)
  case Nil
  show ?case by simp
next
  case (Cons e es)
  then show ?case by (cases e) (auto simp: check_events_of_def)
qed

lemma distinct_map_own_entries:
  "distinct (map f obj) \<Longrightarrow> distinct (map f (own_entries obj))"
  by (auto simp: own_entries_def distinct_map inj_on_def)

lemma own_entries_lookup:
  "distinct (map fst obj) \<Longrightarrow> p \<in> set (own_entries obj) \<Longrightarrow> map_of obj (fst p) = Some (snd p)"
  by (simp add: set_own_entries)

lemma own_entries_no_index:
  "\<forall>k \<in> fst ` set obj. \<not> is_array_index k \<Longrightarrow> own_entries obj = obj"
  by (simp add: own_entries_def filter_empty_conv filter_id_conv)

text \<open>
  The loop over a list of fields of the registry, when no check throws: every field is
  checked, in the order of the list; and when the fields have different elements, the events
  of the checks are those of the single checks on the elements as they were at the start,
  one field after the other.
\<close>

lemma sf_checked:
  assumes "distinct (map fst ents)" and "\<not> has_whitespace (errorClass st)"
    and "\<forall>p \<in> set ents. map_of (registry st) (fst p) = Some (snd p)"
  shows "checked_elements (events st (fst (submit_fields (map fst ents) errored st)))
           = map (element \<circ> snd) ents"
  using assms
proof (induction ents arbitrary: errored st)
  case Nil
  show ?case by (simp add: events_def)
next
  case (Cons p ents)
  obtain k fld where p: "p = (k, fld)" by (cases p)
  from Cons.prems p have own: "map_of (registry st) k = Some fld"
    and notin: "k \<notin> fst ` set ents" and dist: "distinct (map fst ents)"
    by auto
  from sf_events_Own [OF own, of ks errored for ks] Cons.prems(2)
  obtain s b where
    eq: "submit_fields (k # map fst ents) errored st = submit_fields (map fst ents) b s"
    and ev: "events st (fst (submit_fields (k # map fst ents) errored st)) =
          check_events fld (elements st (element fld))
          @ (if \<not> errored \<and> check_message fld st \<noteq> ''''
             then [Focus (element fld), ScrollIntoView (element fld)] else [])
          @ events s (fst (submit_fields (map fst ents) b s))"
    and ec: "errorClass s = errorClass st"
    and reg: "\<forall>k'. k' \<noteq> k \<longrightarrow> map_of (registry s) k' = map_of (registry st) k'"
    by blast
  have "\<forall>q \<in> set ents. map_of (registry s) (fst q) = Some (snd q)"
  proof
    fix q assume q: "q \<in> set ents"
    then have "fst q \<noteq> k" using notin by force
    with reg Cons.prems(3) q show "map_of (registry s) (fst q) = Some (snd q)" by simp
  qed
  with dist ec Cons.prems(2)
  have "checked_elements (events s (fst (submit_fields (map fst ents) b s)))
      = map (element \<circ> snd) ents"
    by (intro Cons.IH) simp_all
  then show ?case by (simp add: p ev del: submit_fields.simps)
qed

lemma sf_sequential:
  assumes "distinct (map fst ents)" and "\<not> has_whitespace (errorClass st)"
    and "\<forall>p \<in> set ents. map_of (registry st) (fst p) = Some (snd p)"
  shows "\<exists>els. length els = length ents
      \<and> check_events_of (events st (fst (submit_fields (map fst ents) errored st)))
           = concat (map (\<lambda>(p, e). check_events (snd p) e) (zip ents els))"
  using assms
proof (induction ents arbitrary: errored st)
  case Nil
  show ?case by (simp add: events_def)
next
  case (Cons p ents)
  obtain k fld where p: "p = (k, fld)" by (cases p)
  from Cons.prems p have own: "map_of (registry st) k = Some fld"
    and notin: "k \<notin> fst ` set ents" and dist: "distinct (map fst ents)"
    by auto
  from sf_events_Own [OF own, of ks errored for ks] Cons.prems(2)
  obtain s b where
    eq: "submit_fields (k # map fst ents) errored st = submit_fields (map fst ents) b s"
    and ev: "events st (fst (submit_fields (k # map fst ents) errored st)) =
          check_events fld (elements st (element fld))
          @ (if \<not> errored \<and> check_message fld st \<noteq> ''''
             then [Focus (element fld), ScrollIntoView (element fld)] else [])
          @ events s (fst (submit_fields (map fst ents) b s))"
    and ec: "errorClass s = errorClass st"
    and reg: "\<forall>k'. k' \<noteq> k \<longrightarrow> map_of (registry s) k' = map_of (registry st) k'"
    by blast
  have "\<forall>q \<in> set ents. map_of (registry s) (fst q) = Some (snd q)"
  proof
    fix q assume q: "q \<in> set ents"
    then have "fst q \<noteq> k" using notin by force
    with reg Cons.prems(3) q show "map_of (registry s) (fst q) = Some (snd q)" by simp
  qed
  with dist ec Cons.prems(2)
  have "\<exists>els. length els = length ents
      \<and> check_events_of (events s (fst (submit_fields (map fst ents) b s)))
           = concat (map (\<lambda>(p, e). check_events (snd p) e) (zip ents els))"
    by (intro Cons.IH) simp_all
  then obtain els where len: "length els = length ents"
    and bl: "check_events_of (events s (fst (submit_fields (map fst ents) b s)))
           = concat (map (\<lambda>(p, e). check_events (snd p) e) (zip ents els))"
    by blast
  show ?case
    by (intro exI [of _ "elements st (element fld) # els"])
       (simp add: p ev len bl del: submit_fields.simps)
qed

lemma sf_blocks:
  assumes "distinct (map fst ents)" and "\<not> has_whitespace (errorClass st)"
    and "\<forall>p \<in> set ents. map_of (registry st) (fst p) = Some (snd p)"
    and "distinct (map (element \<circ> snd) ents)"
  shows "check_events_of (events st (fst (submit_fields (map fst ents) errored st)))
           = concat (map (\<lambda>p. check_events (snd p) (elements st (element (snd p)))) ents)"
  using assms
proof (induction ents arbitrary: errored st)
  case Nil
  show ?case by (simp add: events_def)
next
  case (Cons p ents)
  obtain k fld where p: "p = (k, fld)" by (cases p)
  from Cons.prems p have own: "map_of (registry st) k = Some fld"
    and notin: "k \<notin> fst ` set ents" and dist: "distinct (map fst ents)"
    by auto
  from Cons.prems(4) p have other: "\<forall>q \<in> set ents. element (snd q) \<noteq> element fld"
    and dist_els: "distinct (map (element \<circ> snd) ents)"
    by (force, simp add: comp_def)
  from sf_events_Own [OF own, of ks errored for ks] Cons.prems(2)
  obtain s b where
    eq: "submit_fields (k # map fst ents) errored st = submit_fields (map fst ents) b s"
    and ev: "events st (fst (submit_fields (k # map fst ents) errored st)) =
          check_events fld (elements st (element fld))
          @ (if \<not> errored \<and> check_message fld st \<noteq> ''''
             then [Focus (element fld), ScrollIntoView (element fld)] else [])
          @ events s (fst (submit_fields (map fst ents) b s))"
    and ec: "errorClass s = errorClass st"
    and els: "elements s = elements (fst (checkValid fld st))"
    and reg: "\<forall>k'. k' \<noteq> k \<longrightarrow> map_of (registry s) k' = map_of (registry st) k'"
    by blast
  have "\<forall>q \<in> set ents. map_of (registry s) (fst q) = Some (snd q)"
  proof
    fix q assume q: "q \<in> set ents"
    then have "fst q \<noteq> k" using notin by force
    with reg Cons.prems(3) q show "map_of (registry s) (fst q) = Some (snd q)" by simp
  qed
  with dist ec Cons.prems(2) dist_els
  have "check_events_of (events s (fst (submit_fields (map fst ents) b s)))
      = concat (map (\<lambda>p. check_events (snd p) (elements s (element (snd p)))) ents)"
    by (intro Cons.IH) (simp_all add: comp_def)
  moreover have "map (\<lambda>p. check_events (snd p) (elements s (element (snd p)))) ents
      = map (\<lambda>p. check_events (snd p) (elements st (element (snd p)))) ents"
    using other by (intro map_cong refl) (simp add: els cv_elements_other)
  ultimately show ?case by (simp add: p ev del: submit_fields.simps)
qed

lemma submit_events:
  "\<exists>tail. events st (fst (submit callback st))
        = events st (fst (submit_fields (own_keys (registry st)) False st)) @ tail
     \<and> check_events_of tail = [] \<and> checked_elements tail = []"
proof -
  from submit_trace [of st callback] obtain es tail where
    t: "trace (fst (submit_fields (own_keys (registry st)) False st)) = trace st @ es"
      "trace (fst (submit callback st)) = trace st @ es @ tail"
      "\<forall>r m. Checked r m \<notin> set tail" "\<forall>r i. Validator r i \<notin> set tail"
    by blast
  have "events st (fst (submit callback st)) = es @ tail"
    "events st (fst (submit_fields (own_keys (registry st)) False st)) = es"
    using t(1,2) by (simp_all add: events_def)
  with no_check_events [OF t(3,4)] show ?thesis by simp
qed

lemma submit_checked:
  assumes "distinct (map fst (registry st))" and "\<not> has_whitespace (errorClass st)"
  shows "checked_elements (events st (fst (submit callback st)))
           = map (element \<circ> snd) (own_entries (registry st))"
proof -
  have "checked_elements (events st
          (fst (submit_fields (map fst (own_entries (registry st))) False st)))
      = map (element \<circ> snd) (own_entries (registry st))"
    using assms by (intro sf_checked) (simp_all add: distinct_own_entries own_entries_lookup)
  with submit_events [of st callback] show ?thesis by (auto simp: own_keys_def)
qed

lemma submit_sequential:
  assumes "distinct (map fst (registry st))" and "\<not> has_whitespace (errorClass st)"
  shows "\<exists>els. length els = length (own_entries (registry st))
      \<and> check_events_of (events st (fst (submit callback st)))
           = concat (map (\<lambda>(p, e). check_events (snd p) e) (zip (own_entries (registry st)) els))"
proof -
  have "\<exists>els. length els = length (own_entries (registry st))
      \<and> check_events_of (events st
          (fst (submit_fields (map fst (own_entries (registry st))) False st)))
           = concat (map (\<lambda>(p, e). check_events (snd p) e) (zip (own_entries (registry st)) els))"
    using assms by (intro sf_sequential) (simp_all add: distinct_own_entries own_entries_lookup)
  with submit_events [of st callback] show ?thesis by (auto simp: own_keys_def)
qed

lemma submit_blocks:
  assumes "distinct (map fst (registry st))" and "\<not> has_whitespace (errorClass st)"
    and "distinct (map (element \<circ> snd) (registry st))"
  shows "check_events_of (events st (fst (submit callback st)))
           = concat (map (\<lambda>p. check_events (snd p) (elements st (element (snd p))))
                       (own_entries (registry st)))"
proof -
  have "check_events_of (events st
          (fst (submit_fields (map fst (own_entries (registry st))) False st)))
      = concat (map (\<lambda>p. check_events (snd p) (elements st (element (snd p))))
                  (own_entries (registry st)))"
    using assms
    by (intro sf_blocks)
       (simp_all add: distinct_own_entries own_entries_lookup distinct_map_own_entries)
  with submit_events [of st callback] show ?thesis by (auto simp: own_keys_def)
qed

lemma sf_distinct:
  "distinct (map fst (registry st)) \<Longrightarrow>
   distinct (map fst (registry (fst (submit_fields ks errored st))))"
proof -
  have "distinct (map fst (registry st)) \<longrightarrow>
        distinct (map fst (registry (fst (submit_fields ks errored st))))"
    by (rule sf_rel [where Q = "\<lambda>s s'. distinct (map fst (registry s)) \<longrightarrow>
                                      distinct (map fst (registry s'))"])
       (simp_all add: distinct_delete)
  then show "distinct (map fst (registry st)) \<Longrightarrow>
   distinct (map fst (registry (fst (submit_fields ks errored st))))" by simp
qed

lemma sf_registry_subset:
  "set (registry (fst (submit_fields ks errored st))) \<subseteq> set (registry st)"
proof (rule sf_rel [where Q = "\<lambda>s s'. set (registry s') \<subseteq> set (registry s)"], goal_cases)
  case (2 s1 s2 s3)
  then show ?case by (rule subset_trans [rotated])
next
  case (5 k fld s)
  show ?case by (auto simp: AList.delete_eq)
qed simp_all

lemma sf_registry:
  "(\<forall>k fld. map_of (registry (fst (submit_fields ks errored st))) k = Some fld \<longrightarrow>
       map_of (registry st) k = Some fld)
   \<and> (\<forall>k fld. map_of (registry st) k = Some fld \<and> in_document (elements st (element fld)) \<longrightarrow>
       map_of (registry (fst (submit_fields ks errored st))) k = Some fld)"
proof -
  let ?Q = "\<lambda>s s'. (\<forall>r. in_document (elements s' r) = in_document (elements s r))
     \<and> (\<forall>k fld. map_of (registry s') k = Some fld \<longrightarrow> map_of (registry s) k = Some fld)
     \<and> (\<forall>k fld. map_of (registry s) k = Some fld \<and> in_document (elements s (element fld)) \<longrightarrow>
           map_of (registry s') k = Some fld)"
  have "?Q st (fst (submit_fields ks errored st))"
  proof (rule sf_rel [where Q = ?Q], goal_cases)
    case (1 s)
    show ?case by simp
  next
    case (2 s1 s2 s3)
    then have a: "\<And>r. in_document (elements s2 r) = in_document (elements s1 r)"
      "\<And>r. in_document (elements s3 r) = in_document (elements s2 r)"
      and b: "\<And>k fld. map_of (registry s2) k = Some fld \<Longrightarrow> map_of (registry s1) k = Some fld"
      "\<And>k fld. map_of (registry s3) k = Some fld \<Longrightarrow> map_of (registry s2) k = Some fld"
      and c: "\<And>k fld. map_of (registry s1) k = Some fld \<Longrightarrow> in_document (elements s1 (element fld))
                \<Longrightarrow> map_of (registry s2) k = Some fld"
      "\<And>k fld. map_of (registry s2) k = Some fld \<Longrightarrow> in_document (elements s2 (element fld))
                \<Longrightarrow> map_of (registry s3) k = Some fld"
      by blast+
    show ?case
    proof (intro conjI allI impI)
      fix r show "in_document (elements s3 r) = in_document (elements s1 r)"
        by (rule trans [OF a(2) a(1)])
    next
      fix k fld assume "map_of (registry s3) k = Some fld"
      then show "map_of (registry s1) k = Some fld" by (intro b(1) b(2))
    next
      fix k fld
      assume h: "map_of (registry s1) k = Some fld \<and> in_document (elements s1 (element fld))"
      then have "map_of (registry s2) k = Some fld" by (intro c(1)) simp_all
      moreover from h have "in_document (elements s2 (element fld))" by (simp only: a(1))
      ultimately show "map_of (registry s3) k = Some fld" by (rule c(2))
    qed
  next
    case (3 fld s)
    show ?case by simp
  next
    case (4 r s)
    show ?case by simp
  next
    case (5 k fld s)
    then show ?case by (auto simp: delete_conv')
  qed
  then show ?thesis by blast
qed

lemma submit_frame [simp]:
  "registry (fst (submit callback st))
     = registry (fst (submit_fields (own_keys (registry st)) False st))"
  "errorClass (fst (submit callback st)) = errorClass st"
  "handlers (fst (submit callback st)) = handlers st"
  "field_name (elements (fst (submit callback st)) r) = field_name (elements st r)"
  "in_document (elements (fst (submit callback st)) r) = in_document (elements st r)"
  by (cases "snd (submit_fields (own_keys (registry st)) False st) = Inr False";
      simp add: submit_errored submit_passed Let_def split: callback_result.splits sum.splits)+

subsection \<open>The registry under the actions\<close>

lemma validate_registry:
  "registry (validate ref acc st) =
     AList.update (field_name (elements st ref))
       \<lparr>element = ref, validators = (case acc of Some vs \<Rightarrow> vs | None \<Rightarrow> [])\<rparr> (registry st)"
  by (simp add: validate_def Let_def)

lemma oninput_frame [simp]:
  "registry (fst (oninput ref name st)) = registry st"
  "errorClass (fst (oninput ref name st)) = errorClass st"
  "field_name (elements (fst (oninput ref name st)) r) = field_name (elements st r)"
  by (simp_all add: oninput_def Let_def prim_defs toggle_errorClass_eq field_name_def
      split: option.splits)

lemma validateField_frame [simp]:
  "registry (fst (validateField n st)) = registry st"
  "errorClass (fst (validateField n st)) = errorClass st"
  "field_name (elements (fst (validateField n st)) r) = field_name (elements st r)"
  by (simp_all add: validateField_def split_beta Let_def split: property.splits sum.splits)

lemma fire_distinct:
  "distinct (map fst (registry st)) \<Longrightarrow> distinct (map fst (registry (fire a st)))"
proof (cases a)
  case (UseValidate ref acc)
  then show "distinct (map fst (registry st)) \<Longrightarrow> ?thesis"
    by (simp add: validate_registry distinct_update)
next
  case (Submit callback)
  then show "distinct (map fst (registry st)) \<Longrightarrow> ?thesis"
    by (simp add: sf_distinct)
qed (simp_all add: formSubmit_def onblur_def prim_defs split: option.splits)

text \<open>The keys of the registry stay distinct, as the properties of an object are.\<close>

lemma reachable_distinct: "reachable st \<Longrightarrow> distinct (map fst (registry st))"
  by (induction rule: reachable.induct) (simp_all add: useForm_def fire_distinct)

text \<open>
  The name of an element does not change, and every field is registered under the name of
  its element; so no element is registered under two names.
\<close>

lemma field_name_update [simp]:
  "field_name (e\<lparr>in_document := b\<rparr>) = field_name e"
  "field_name (e\<lparr>el_value := v, native_message := n\<rparr>) = field_name e"
  by (simp_all add: field_name_def split: option.splits)

lemma fire_field_name:
  "field_name (elements (fire a st) r) = field_name (elements st r)"
  by (cases a)
     (simp_all add: validate_def Let_def formSubmit_def onblur_def prim_defs clearErrors_def
        split: option.splits)

lemma set_update_subset: "set (AList.update k v al) \<subseteq> insert (k, v) (set al)"
  by (induction al) auto

lemma fire_registry_subset:
  "set (registry (fire a st)) \<subseteq>
     (case a of
        UseValidate ref acc \<Rightarrow>
          insert (field_name (elements st ref),
                  \<lparr>element = ref, validators = (case acc of Some vs \<Rightarrow> vs | None \<Rightarrow> [])\<rparr>)
            (set (registry st))
      | _ \<Rightarrow> set (registry st))"
  by (cases a)
     (simp_all add: validate_registry set_update_subset sf_registry_subset formSubmit_def
        onblur_def prim_defs split: option.splits)

lemma reachable_names:
  "reachable st \<Longrightarrow> p \<in> set (registry st) \<Longrightarrow> field_name (elements st (element (snd p))) = fst p"
proof (induction arbitrary: p rule: reachable.induct)
  case (start error_class els)
  then show ?case by (simp add: useForm_def)
next
  case (step st a)
  from step.prems fire_registry_subset [of a st]
  have "p \<in> set (registry st)
      \<or> (\<exists>ref acc. a = UseValidate ref acc
           \<and> p = (field_name (elements st ref),
                  \<lparr>element = ref, validators = (case acc of Some vs \<Rightarrow> vs | None \<Rightarrow> [])\<rparr>))"
    by (cases a) auto
  then show ?case
  proof
    assume "p \<in> set (registry st)"
    then show ?thesis using step.IH by (simp add: fire_field_name)
  next
    assume "\<exists>ref acc. a = UseValidate ref acc
           \<and> p = (field_name (elements st ref),
                  \<lparr>element = ref, validators = (case acc of Some vs \<Rightarrow> vs | None \<Rightarrow> [])\<rparr>)"
    then show ?thesis by (auto simp: fire_field_name)
  qed
qed

lemma reachable_distinct_elements:
  "reachable st \<Longrightarrow> distinct (map (element \<circ> snd) (registry st))"
proof -
  assume r: "reachable st"
  from reachable_distinct [OF r] have d: "distinct (registry st)" and i: "inj_on fst (set (registry st))"
    by (simp_all add: distinct_map)
  have "inj_on (element \<circ> snd) (set (registry st))"
  proof (rule inj_onI)
    fix p q
    assume p: "p \<in> set (registry st)" and q: "q \<in> set (registry st)"
      and e: "(element \<circ> snd) p = (element \<circ> snd) q"
    from reachable_names [OF r p] reachable_names [OF r q] e have "fst p = fst q" by simp
    with i p q show "p = q" by (auto dest: inj_onD)
  qed
  with d show ?thesis by (simp add: distinct_map)
qed

subsection \<open>The order of validation\<close>

lemma cv_events_eq:
  "events st (fst (checkValid config st)) = check_events config (elements st (element config))"
  by (simp add: events_def)

text \<open>
  Claim C1, as the code has it.  A check calls the validators of its field one after the
  other in list order (falsy entries of the list are skipped), up to and including the first
  one whose answer is truthy, and calls none when the native validity already fails; it then
  has its message.  When \<open>errorClass\<close> has no whitespace (so that no check throws), a
  submit pass checks every field of the registry exactly once, whatever the outcome of the
  other checks, in the enumeration order of the registry object: the names that are array
  indices first, in ascending numeric order, then all other names in registration order.
  The pass is sequential: its validator calls and messages are those of a check of the
  first field, followed by those of a check of the second field, and so on, one check for
  each field.  With no element registered under two names, as it is in every reachable
  state, each check reads its element as it was when the pass began.  The order is the
  registration order when no field name is an array index.
\<close>

theorem validation_order:
  "events st (fst (checkValid config st)) = check_events config (elements st (element config))
   \<and> check_events config (elements st (element config)) =
       map (Validator (element config))
         (if validationMessage (set_custom_validity '''' (elements st (element config))) \<noteq> ''''
          then []
          else awaited (set_custom_validity '''' (elements st (element config))) 0
                 (validators config))
       @ [Checked (element config) (check_message config st)]
   \<and> (distinct (map fst (registry st)) \<and> \<not> has_whitespace (errorClass st) \<longrightarrow>
        checked_elements (events st (fst (submit callback st)))
          = map (element \<circ> snd) (own_entries (registry st)))
   \<and> (distinct (map fst (registry st)) \<and> \<not> has_whitespace (errorClass st) \<longrightarrow>
        (\<exists>els. length els = length (own_entries (registry st))
           \<and> check_events_of (events st (fst (submit callback st)))
               = concat (map (\<lambda>(p, e). check_events (snd p) e)
                           (zip (own_entries (registry st)) els))))
   \<and> (distinct (map fst (registry st)) \<and> \<not> has_whitespace (errorClass st)
        \<and> distinct (map (element \<circ> snd) (registry st)) \<longrightarrow>
        check_events_of (events st (fst (submit callback st)))
          = concat (map (\<lambda>p. check_events (snd p) (elements st (element (snd p))))
                      (own_entries (registry st))))
   \<and> ((\<forall>k \<in> fst ` set (registry st). \<not> is_array_index k) \<longrightarrow>
        own_entries (registry st) = registry st)"
proof -
  have "check_events config (elements st (element config)) =
       map (Validator (element config))
         (if validationMessage (set_custom_validity '''' (elements st (element config))) \<noteq> ''''
          then []
          else awaited (set_custom_validity '''' (elements st (element config))) 0
                 (validators config))
       @ [Checked (element config) (check_message config st)]"
    by (simp add: check_events_def check_message_def)
  then show ?thesis
    using submit_sequential [of st callback]
    by (simp only: cv_events_eq simp_thms)
       (simp add: submit_checked submit_blocks own_entries_no_index)
qed

theorem validation_order_witness:
  "map fst (registry demo) = [''username'', ''message'']
   \<and> \<not> is_array_index ''username'' \<and> \<not> is_array_index ''message''
   \<and> map (element \<circ> snd) (registry demo) = [0, 1]
   \<and> errorClass demo = ''error''
   \<and> checked_elements (events demo (fst (submit accepted demo))) = [0, 1]
   \<and> check_events_of (events demo (fst (submit accepted demo)))
       = [Checked 0 ''Please fill out this field.'', Validator 1 1,
          Checked 1 ''must be at least 5 characters long'']
   \<and> events demo (fst (checkValid \<lparr>element = 1, validators = [None, Some min5Characters]\<rparr> demo))
       = [Validator 1 1, Checked 1 ''must be at least 5 characters long'']"
proof -
  let ?cfg = "\<lparr>element = 1, validators = [None, Some min5Characters]\<rparr>"
  have keys: "map fst (registry demo) = [''username'', ''message'']" by code_simp
  have idx: "\<not> is_array_index ''username''" "\<not> is_array_index ''message''" by code_simp+
  have els: "map (element \<circ> snd) (registry demo) = [0, 1]" by code_simp
  have ec: "errorClass demo = ''error''" "\<not> has_whitespace (errorClass demo)" by code_simp+
  have one: "validationMessage (set_custom_validity '''' (elements demo 1)) = ''''"
    "awaited (set_custom_validity '''' (elements demo 1)) 0 [None, Some min5Characters] = [1]"
    "check_message ?cfg demo = ''must be at least 5 characters long''"
    by code_simp+
  have blocks: "concat (map (\<lambda>p. check_events (snd p) (elements demo (element (snd p))))
      (registry demo))
      = [Checked 0 ''Please fill out this field.'', Validator 1 1,
         Checked 1 ''must be at least 5 characters long'']"
    by code_simp
  have set: "fst ` set (registry demo) = {''username'', ''message''}"
    using keys by (metis list.set_map list.simps(15) empty_set)
  have d: "distinct (map fst (registry demo))" "distinct (map (element \<circ> snd) (registry demo))"
    by (simp_all only: keys els) simp_all
  show ?thesis
    using validation_order [of demo ?cfg accepted] keys idx els ec one d blocks
    by (simp add: set)
qed

text \<open>
  The claim as it was stated fails for a field whose name is an array index: registered after
  \<open>street\<close>, the field \<open>0\<close> is checked before it.  It also fails when \<open>errorClass\<close> holds
  two class names: the check of the first invalid field throws, which ends the pass before
  the fields after it are checked.
\<close>

theorem validation_order_counterexample:
  "map fst (registry numbered) = [''street'', ''0'']
   \<and> map (element \<circ> snd) (registry numbered) = [3, 4]
   \<and> checked_elements (events numbered (fst (submit accepted numbered))) = [4, 3]
   \<and> map (element \<circ> snd) (registry spaced) = [0, 1]
   \<and> errorClass spaced = ''has error''
   \<and> events spaced (fst (submit accepted spaced)) = [Checked 0 ''Please fill out this field.'']
   \<and> snd (submit accepted spaced) = Inl InvalidCharacterError"
  by code_simp

subsection \<open>Runs of submit on the example page\<close>

theorem submit_failure_blocks_callback_witness:
  "Checked 0 ''Please fill out this field.'' \<in> set (events demo (fst (submit accepted demo)))
   \<and> in_document (elements demo 0)
   \<and> Callback \<notin> set (events demo (fst (submit accepted demo)))
   \<and> (\<forall>b. SetIsSubmitting b \<notin> set (events demo (fst (submit accepted demo))))
   \<and> \<not> isSubmitting (fst (submit accepted demo))
   \<and> \<not> isSubmitted (fst (submit accepted demo))"
proof -
  have ev: "events demo (fst (submit accepted demo)) =
     [Checked 0 ''Please fill out this field.'', Focus 0, ScrollIntoView 0, Validator 1 1,
      Checked 1 ''must be at least 5 characters long'']"
    by code_simp
  have doc: "in_document (elements demo 0)" by code_simp
  have flags: "\<not> isSubmitting demo" "\<not> isSubmitted demo" by code_simp+
  show ?thesis
    using submit_failure_blocks_callback [of 0 "''Please fill out this field.''" demo accepted]
      doc flags
    by (simp add: ev)
qed



subsection \<open>What a failed check leaves\<close>

lemma check_message_source:
  "check_message config st \<noteq> '''' \<Longrightarrow>
   check_message config st = native_message (elements st (element config))
   \<or> (\<exists>v. Some v \<in> set (validators config)
          \<and> v (set_custom_validity '''' (elements st (element config)))
              = Some (check_message config st))"
proof (cases "validationMessage (set_custom_validity '''' (elements st (element config))) = ''''")
  case True
  assume "check_message config st \<noteq> ''''"
  with True show ?thesis
    using first_answer_source
      [of "set_custom_validity '''' (elements st (element config))" "validators config"]
    by (simp add: check_message_def element_message_def Let_def)
next
  case False
  then show ?thesis
    by (auto simp: check_message_def element_message_def Let_def validationMessage_set_custom
        split: if_splits)
qed

lemma checked_element_marks:
  assumes "element_message config e \<noteq> ''''" and "\<not> has_whitespace ec"
  shows "aria_invalid (checked_element ec config e) = Some ''true''"
    and "ec \<noteq> '''' \<Longrightarrow> ec \<in> set (classList (checked_element ec config e))"
  using assms by (simp_all add: checked_element_def Let_def token_toggled_added)

text \<open>A check that fails while \<open>errorClass\<close> has whitespace throws and records nothing.\<close>

lemma checkValid_throws:
  assumes "check_message config st \<noteq> ''''" and "has_whitespace (errorClass st)"
  shows "snd (checkValid config st) = Inl InvalidCharacterError"
    and "errors (fst (checkValid config st)) = errors st"
    and "aria_invalid (elements (fst (checkValid config st)) r) = aria_invalid (elements st r)"
    and "classList (elements (fst (checkValid config st)) r) = classList (elements st r)"
  using assms
  by (simp_all add: checkValid_eq checked_element_def check_message_def Let_def)

text \<open>
  Claim C4, as the code has it.  Let the check of an element find a failure message \<open>m\<close>
  (the native message of the element, or the answer of one of its validators), and let
  \<open>errorClass\<close> have no whitespace.  Then the check returns \<open>m\<close>, the element is marked
  \<open>aria-invalid="true"\<close>, \<open>errorClass\<close> is added when it is configured, and the entry of
  the error store under the name of the element is set to exactly \<open>m\<close>, all other entries
  staying as they were.  On an element with the constraint validation interface the custom
  validity is \<open>m\<close> when \<open>m\<close> comes from a validator and empty when it is the native
  message, so that \<open>validationMessage\<close> is \<open>m\<close> if the element is a candidate for
  validation.  On an element without the interface no custom validity is set and
  \<open>validationMessage\<close> stays empty.
\<close>

theorem checkValid_failure_surfaced:
  assumes "checkValid config st = (st', outcome)"
    and "check_message config st = m" and "m \<noteq> ''''"
    and "\<not> has_whitespace (errorClass st)"
  shows "outcome = Inr m
     \<and> aria_invalid (elements st' (element config)) = Some ''true''
     \<and> (errorClass st \<noteq> '''' \<longrightarrow>
          errorClass st \<in> set (classList (elements st' (element config))))
     \<and> map_of (errors st') = (map_of (errors st))(field_name (elements st (element config)) \<mapsto> m)
     \<and> field_name (elements st' (element config)) = field_name (elements st (element config))
     \<and> custom_message (elements st' (element config)) =
          (if validity_api (elements st (element config))
           then (if validationMessage (set_custom_validity '''' (elements st (element config))) \<noteq> ''''
                 then '''' else m)
           else custom_message (elements st (element config)))
     \<and> validationMessage (elements st' (element config)) =
          (if validity_api (elements st (element config))
              \<and> willValidate (elements st (element config))
           then m else '''')
     \<and> (m = native_message (elements st (element config))
          \<or> (\<exists>v. Some v \<in> set (validators config)
                 \<and> v (set_custom_validity '''' (elements st (element config))) = Some m))"
proof -
  from assms(1) have st': "st' = fst (checkValid config st)"
    and out: "outcome = snd (checkValid config st)"
    by simp_all
  note m = assms(2) [symmetric]
  have ne: "check_message config st \<noteq> ''''" using assms(2,3) by simp
  then have cond: "element_message config (elements st (element config)) \<noteq> ''''"
    by (simp add: check_message_def)
  have el: "elements st' (element config) =
      checked_element (errorClass st) config (elements st (element config))"
    unfolding st' by (simp add: checkValid_eq)
  have "outcome = Inr m"
    unfolding out m using assms(4) by simp
  moreover have "aria_invalid (elements st' (element config)) = Some ''true''"
    unfolding el using cond assms(4) by (rule checked_element_marks(1))
  moreover have "errorClass st \<noteq> '''' \<longrightarrow>
      errorClass st \<in> set (classList (elements st' (element config)))"
    unfolding el using checked_element_marks(2) [OF cond assms(4)] by blast
  moreover have "map_of (errors st') =
      (map_of (errors st))(field_name (elements st (element config)) \<mapsto> m)"
    unfolding st' m using ne assms(4) by (simp add: checkValid_eq update_conv')
  moreover have "field_name (elements st' (element config))
      = field_name (elements st (element config))"
    unfolding st' by simp
  moreover have "custom_message (elements st' (element config)) =
          (if validity_api (elements st (element config))
           then (if validationMessage (set_custom_validity '''' (elements st (element config))) \<noteq> ''''
                 then '''' else m)
           else custom_message (elements st (element config)))"
    unfolding el m using ne assms(4)
    by (simp add: checked_element_def check_message_def element_message_def Let_def
        set_custom_validity_def)
  moreover have "validationMessage (elements st' (element config)) =
          (if validity_api (elements st (element config))
              \<and> willValidate (elements st (element config))
           then m else '''')"
    unfolding st' m by (simp add: cv_validationMessage)
  moreover have "m = native_message (elements st (element config))
      \<or> (\<exists>v. Some v \<in> set (validators config)
             \<and> v (set_custom_validity '''' (elements st (element config))) = Some m)"
    unfolding m using ne by (rule check_message_source)
  ultimately show ?thesis by blast
qed

theorem checkValid_failure_surfaced_witness:
  "check_message \<lparr>element = 1, validators = [None, Some min5Characters]\<rparr> demo
     = ''must be at least 5 characters long''
   \<and> validity_api (elements demo 1) \<and> willValidate (elements demo 1)
   \<and> errorClass demo = ''error''
   \<and> snd (checkValid \<lparr>element = 1, validators = [None, Some min5Characters]\<rparr> demo)
        = Inr ''must be at least 5 characters long''
   \<and> aria_invalid (elements (fst (checkValid \<lparr>element = 1,
          validators = [None, Some min5Characters]\<rparr> demo)) 1) = Some ''true''
   \<and> ''error'' \<in> set (classList (elements (fst (checkValid \<lparr>element = 1,
          validators = [None, Some min5Characters]\<rparr> demo)) 1))
   \<and> map_of (errors (fst (checkValid \<lparr>element = 1,
          validators = [None, Some min5Characters]\<rparr> demo))) ''message''
        = Some ''must be at least 5 characters long''
   \<and> validationMessage (elements (fst (checkValid \<lparr>element = 1,
          validators = [None, Some min5Characters]\<rparr> demo)) 1)
        = ''must be at least 5 characters long''"
proof -
  let ?cfg = "\<lparr>element = 1, validators = [None, Some min5Characters]\<rparr>"
  have m: "check_message ?cfg demo = ''must be at least 5 characters long''"
    by code_simp
  have run: "checkValid ?cfg demo = (fst (checkValid ?cfg demo), snd (checkValid ?cfg demo))"
    by (rule prod.collapse [symmetric])
  have facts: "validity_api (elements demo 1)" "willValidate (elements demo 1)"
    "errorClass demo = ''error''" "field_name (elements demo 1) = ''message''"
    "\<not> has_whitespace (errorClass demo)"
    by code_simp+
  from checkValid_failure_surfaced [OF run m] facts
  show ?thesis using m by simp
qed

text \<open>
  The claim as it was stated fails for a registered element without the constraint
  validation interface, such as a \<open>div\<close> with \<open>data-name\<close>: the message reaches the store
  and \<open>aria-invalid\<close>, but neither a custom validity nor \<open>validationMessage\<close>.  It also
  fails when \<open>errorClass\<close> holds two class names: the check throws before it has written
  \<open>aria-invalid\<close> or the store.
\<close>

theorem checkValid_failure_surfaced_counterexample:
  "map_option element (map_of (registry widget) ''customField'') = Some 2
   \<and> map_of (errors (fst (validateField ''customField'' widget))) ''customField''
        = Some ''This widget may not be shown''
   \<and> aria_invalid (elements (fst (validateField ''customField'' widget)) 2) = Some ''true''
   \<and> custom_message (elements (fst (validateField ''customField'' widget)) 2) = ''''
   \<and> validationMessage (elements (fst (validateField ''customField'' widget)) 2) = ''''
   \<and> errorClass spaced = ''has error''
   \<and> check_message \<lparr>element = 0, validators = []\<rparr> spaced = ''Please fill out this field.''
   \<and> snd (checkValid \<lparr>element = 0, validators = []\<rparr> spaced) = Inl InvalidCharacterError
   \<and> aria_invalid (elements (fst (checkValid \<lparr>element = 0, validators = []\<rparr> spaced)) 0) = None
   \<and> errors (fst (checkValid \<lparr>element = 0, validators = []\<rparr> spaced)) = []"
  by code_simp

subsection \<open>validateField\<close>

text \<open>
  Claim C9, as the code has it.  For a name that is no key of the registry and no name of a
  property of \<open>Object.prototype\<close>, \<open>validateField\<close> returns false and leaves the whole state
  as it was.  For a registered name it runs the check of that field and, unless that check
  finds a failure while \<open>errorClass\<close> has whitespace, focuses and scrolls to the element
  when the check fails and returns true if and only if the error store holds no truthy
  message under that name afterwards.
\<close>

theorem validateField_result:
  "(map_of (registry st) fieldName = None \<and> fieldName \<notin> set object_prototype_names \<longrightarrow>
      validateField fieldName st = (st, Inr False))
   \<and> (\<forall>fld. map_of (registry st) fieldName = Some fld
         \<and> (check_message fld st = '''' \<or> \<not> has_whitespace (errorClass st)) \<longrightarrow>
         fst (validateField fieldName st) =
           (if check_message fld st \<noteq> ''''
            then focus_and_scroll (element fld) (fst (checkValid fld st))
            else fst (checkValid fld st))
         \<and> snd (validateField fieldName st) =
             Inr (\<not> truthy (map_of (errors (fst (validateField fieldName st))) fieldName)))"
proof (intro conjI allI impI)
  assume "map_of (registry st) fieldName = None \<and> fieldName \<notin> set object_prototype_names"
  then have "get_property (registry st) fieldName = Missing"
    by (simp add: get_property_Missing)
  then show "validateField fieldName st = (st, Inr False)"
    by (simp add: validateField_def)
next
  fix fld
  assume h: "map_of (registry st) fieldName = Some fld
    \<and> (check_message fld st = '''' \<or> \<not> has_whitespace (errorClass st))"
  then have own: "get_property (registry st) fieldName = Own fld"
    by (simp add: get_property_Own)
  from h have ok: "\<not> (check_message fld st \<noteq> '''' \<and> has_whitespace (errorClass st))"
    by blast
  have run: "validateField fieldName st =
      (let st2 = (if check_message fld st \<noteq> ''''
                  then focus_and_scroll (element fld) (fst (checkValid fld st))
                  else fst (checkValid fld st))
       in (st2, Inr (\<not> truthy (map_of (errors st2) fieldName))))"
    using ok by (auto simp: validateField_def own split_beta Let_def cv_validationMessage)
  show "fst (validateField fieldName st) =
           (if check_message fld st \<noteq> ''''
            then focus_and_scroll (element fld) (fst (checkValid fld st))
            else fst (checkValid fld st))"
    by (simp add: run Let_def)
  show "snd (validateField fieldName st) =
             Inr (\<not> truthy (map_of (errors (fst (validateField fieldName st))) fieldName))"
    by (simp add: run Let_def)
qed

theorem validateField_result_witness:
  "map_of (registry demo) ''phone'' = None
   \<and> ''phone'' \<notin> set object_prototype_names
   \<and> validateField ''phone'' demo = (demo, Inr False)
   \<and> map_option element (map_of (registry demo) ''message'') = Some 1
   \<and> errorClass demo = ''error''
   \<and> map_of (errors (fst (validateField ''message'' demo))) ''message''
        = Some ''must be at least 5 characters long''
   \<and> snd (validateField ''message'' demo) = Inr False
   \<and> map_option element (map_of (registry demo_valid) ''message'') = Some 1
   \<and> map_of (errors (fst (validateField ''message'' demo_valid))) ''message'' = None
   \<and> snd (validateField ''message'' demo_valid) = Inr True"
proof -
  have none: "map_of (registry demo) ''phone'' = None" by code_simp
  have phone: "''phone'' \<notin> set object_prototype_names"
    by (simp add: object_prototype_names_def)
  have reg: "map_option element (map_of (registry demo) ''message'') = Some 1"
    "map_option element (map_of (registry demo_valid) ''message'') = Some 1"
    by code_simp+
  then obtain f g where f: "map_of (registry demo) ''message'' = Some f"
    and g: "map_of (registry demo_valid) ''message'' = Some g"
    by auto
  have ec: "errorClass demo = ''error''" "\<not> has_whitespace (errorClass demo)"
    "\<not> has_whitespace (errorClass demo_valid)"
    by code_simp+
  have store: "map_of (errors (fst (validateField ''message'' demo))) ''message''
        = Some ''must be at least 5 characters long''"
    "map_of (errors (fst (validateField ''message'' demo_valid))) ''message'' = None"
    by code_simp+
  from validateField_result [of demo "''phone''"] none phone
  have a: "validateField ''phone'' demo = (demo, Inr False)" by simp
  from validateField_result [of demo "''message''"] f store(1) ec
  have b: "snd (validateField ''message'' demo) = Inr False" by (simp add: truthy_def)
  from validateField_result [of demo_valid "''message''"] g store(2) ec
  have c: "snd (validateField ''message'' demo_valid) = Inr True" by (simp add: truthy_def)
  from none phone a reg store b c ec(1) show ?thesis by simp
qed

text \<open>
  The claim as it was stated fails for a name that is not registered but names a property of
  \<open>Object.prototype\<close>, such as \<open>toString\<close>: \<open>validateField\<close> throws a TypeError.  It also
  fails for a registered name when \<open>errorClass\<close> holds two class names and the field is
  invalid: \<open>validateField\<close> throws and records no error.
\<close>

theorem validateField_result_counterexample:
  "map_option element (map_of (registry demo) ''toString'') = None
   \<and> snd (validateField ''toString'' demo) = Inl TypeError
   \<and> map_option element (map_of (registry spaced) ''username'') = Some 0
   \<and> errorClass spaced = ''has error''
   \<and> snd (validateField ''username'' spaced) = Inl InvalidCharacterError
   \<and> errors (fst (validateField ''username'' spaced)) = []"
  by code_simp

subsection \<open>Input events\<close>

lemma oninput_eq:
  "fst (oninput ref name st) =
     (if \<not> truthy (map_of (errors st) name) then setIsSubmitted False st
      else (setIsSubmitted False st)
             \<lparr>errors := AList.delete name (errors st),
              elements := (elements st)(ref :=
                 (if errorClass st \<noteq> '''' \<and> \<not> has_whitespace (errorClass st)
                  then token_toggled (errorClass st) False
                         ((elements st ref)\<lparr>aria_invalid := Some ''false''\<rparr>)
                  else (elements st ref)\<lparr>aria_invalid := Some ''false''\<rparr>))\<rparr>)"
  by (simp add: oninput_def Let_def prim_defs setProperty_def toggle_errorClass_eq)

text \<open>
  Claim C10, as the code has it.  An input event on an element that carries the handler of
  \<open>validate\<close> resets \<open>isSubmitted\<close>.  If the error store holds a truthy (non-empty) message
  under the name of the field, exactly that entry is deleted, all other entries staying as
  they were, \<open>aria-invalid\<close> of the element is set to \<open>"false"\<close> and \<open>errorClass\<close> is
  removed; otherwise neither the error store nor any element is changed.
\<close>

theorem oninput_clears_own_error:
  assumes "handlers st ref = Some (name, config)"
  shows "\<not> isSubmitted (fire (Input ref) st)
     \<and> (if truthy (map_of (errors st) name)
         then map_of (errors (fire (Input ref) st)) = (map_of (errors st))(name := None)
              \<and> aria_invalid (elements (fire (Input ref) st) ref) = Some ''false''
              \<and> (errorClass st \<noteq> '''' \<longrightarrow>
                   errorClass st \<notin> set (classList (elements (fire (Input ref) st) ref)))
         else errors (fire (Input ref) st) = errors st
              \<and> elements (fire (Input ref) st) = elements st)"
  using assms
  by (simp add: oninput_eq prim_defs delete_conv' token_toggled_removed
      no_whitespace_token_in_classList)

theorem oninput_clears_own_error_witness:
  "map_option fst (handlers rejected 0) = Some ''username''
   \<and> map_of (errors rejected) ''username'' = Some ''taken''
   \<and> map_of (errors rejected) ''form'' = Some ''Something went wrong''
   \<and> aria_invalid (elements rejected 0) = Some ''true''
   \<and> \<not> isSubmitted (fire (Input 0) rejected)
   \<and> map_of (errors (fire (Input 0) rejected)) ''username'' = None
   \<and> map_of (errors (fire (Input 0) rejected)) ''form'' = Some ''Something went wrong''
   \<and> aria_invalid (elements (fire (Input 0) rejected) 0) = Some ''false''
   \<and> ''error'' \<notin> set (classList (elements (fire (Input 0) rejected) 0))"
proof -
  have h: "map_option fst (handlers rejected 0) = Some ''username''" by code_simp
  then obtain config where c: "handlers rejected 0 = Some (''username'', config)"
    by (cases "handlers rejected 0") auto
  have before: "map_of (errors rejected) ''username'' = Some ''taken''"
    "map_of (errors rejected) ''form'' = Some ''Something went wrong''"
    "aria_invalid (elements rejected 0) = Some ''true''"
    "errorClass rejected = ''error''"
    by code_simp+
  from oninput_clears_own_error [OF c] before h
  show ?thesis by (simp add: truthy_def)
qed

text \<open>
  The claim as it was stated fails for an entry that is the empty string, which a submit
  callback can put into the store: the store has an entry for the field, and the input event
  leaves it (and \<open>aria-invalid="true"\<close>) in place.
\<close>

theorem oninput_clears_own_error_counterexample:
  "map_option fst (handlers blanked 1) = Some ''message''
   \<and> map_option element (map_of (registry blanked) ''message'') = Some 1
   \<and> map_of (errors blanked) ''message'' = Some ''''
   \<and> map_of (errors (fire (Input 1) blanked)) ''message'' = Some ''''
   \<and> aria_invalid (elements (fire (Input 1) blanked) 1) = Some ''true''"
  by code_simp

subsection \<open>Blur events\<close>

text \<open>
  Claim C2 does not hold of the code.  On the example page the required \<open>username\<close> input
  is empty; a blur event on it resets \<open>isSubmitted\<close> and nothing else: no validator is called,
  nothing is written to the element or to the error store.  The function that the handler
  returns would have recorded the failure, had the handler called it.
\<close>

theorem blur_runs_no_check:
  "map_option fst (handlers demo 0) = Some ''username''
   \<and> native_message (elements demo 0) = ''Please fill out this field.''
   \<and> errors (fire (Blur 0) demo) = []
   \<and> aria_invalid (elements (fire (Blur 0) demo) 0) = None
   \<and> classList (elements (fire (Blur 0) demo) 0) = []
   \<and> trace (fire (Blur 0) demo) = [SetIsSubmitted False]
   \<and> errors (fst (snd (onblur \<lparr>element = 0, validators = []\<rparr> demo)
                     (fst (onblur \<lparr>element = 0, validators = []\<rparr> demo))))
        = [(''username'', ''Please fill out this field.'')]"
  by code_simp

text \<open>In general, a blur event changes nothing but \<open>isSubmitted\<close> and the trace.\<close>

lemma fire_blur_eq:
  "fire (Blur ref) st =
     (case handlers st ref of None \<Rightarrow> st | Some h \<Rightarrow> setIsSubmitted False st)"
  by (simp add: onblur_def split: option.splits)

subsection \<open>The registry and the document\<close>

lemma reachable_demo_valid: "reachable demo_valid"
proof -
  have eq: "demo_valid =
      fire (Edit 1 ''hello world'' '''') (fire (Edit 0 ''ann'' '''')
        (fire (UseValidate 1 (Some [None, Some min5Characters]))
          (fire (UseValidate 0 None) (useForm ''error'' page))))"
    by (simp add: demo_valid_def demo_def)
  show ?thesis unfolding eq by (intro reachable.intros)
qed

text \<open>
  The claim C8 as it was stated fails: removing an element from the document leaves its entry
  in the registry, also after a submit pass in which the field is valid.
\<close>

theorem registry_tracks_mounted_counterexample:
  "reachable unmounted
   \<and> map_option element (map_of (registry unmounted) ''message'') = Some 1
   \<and> \<not> in_document (elements unmounted 1)"
proof -
  have "reachable unmounted"
    unfolding unmounted_def by (intro reachable.step reachable_demo_valid)
  moreover have "map_option element (map_of (registry unmounted) ''message'') = Some 1"
    "\<not> in_document (elements unmounted 1)"
    by code_simp+
  ultimately show ?thesis by simp
qed

text \<open>
  Claim C8, as the code has it.  The registry tracks registration, and is pruned only by
  \<open>submit\<close>: whatever happens to a context, an entry whose element is in the document stays
  a key of the registry; an entry disappears only in a submit pass and only when its element
  is not in the document; and mounting or removing an element does not change the registry.
\<close>

theorem registry_pruned_only_by_submit:
  assumes "map_of (registry st) k = Some fld"
  shows "(in_document (elements st (element fld)) \<longrightarrow> map_of (registry (fire a st)) k \<noteq> None)
     \<and> (map_of (registry (fire a st)) k = None \<longrightarrow>
          (\<exists>callback. a = Submit callback) \<and> \<not> in_document (elements st (element fld)))
     \<and> registry (fire (SetMounted r b) st) = registry st"
proof -
  have keep: "map_of (registry (fire a st)) k \<noteq> None"
    if "(\<forall>callback. a \<noteq> Submit callback) \<or> in_document (elements st (element fld))"
  proof (cases a)
    case (UseValidate ref acc)
    with assms show ?thesis by (simp add: validate_registry update_conv')
  next
    case (Submit callback)
    with that have "in_document (elements st (element fld))" by simp
    with assms sf_registry [of "own_keys (registry st)" False st]
    have "map_of (registry (fst (submit_fields (own_keys (registry st)) False st))) k = Some fld"
      by blast
    with Submit show ?thesis by simp
  qed (use assms in \<open>simp_all add: formSubmit_def onblur_def prim_defs split: option.splits\<close>)
  have "registry (fire (SetMounted r b) st) = registry st"
    by (simp add: prim_defs)
  with keep show ?thesis by blast
qed

theorem registry_pruned_only_by_submit_witness:
  "map_option element (map_of (registry gone) ''username'') = Some 0
   \<and> \<not> in_document (elements gone 0)
   \<and> map_option element (map_of (registry (fire (Submit accepted) gone)) ''username'') = None
   \<and> map_option element (map_of (registry gone) ''message'') = Some 1
   \<and> in_document (elements gone 1)
   \<and> map_of (registry (fire (Submit accepted) gone)) ''message'' \<noteq> None"
proof -
  have ev: "map_option element (map_of (registry gone) ''username'') = Some 0"
    "\<not> in_document (elements gone 0)"
    "map_option element (map_of (registry (fire (Submit accepted) gone)) ''username'') = None"
    "map_option element (map_of (registry gone) ''message'') = Some 1"
    "in_document (elements gone 1)"
    by code_simp+
  from ev(4) obtain fld where f: "map_of (registry gone) ''message'' = Some fld"
    and e: "element fld = 1"
    by auto
  from registry_pruned_only_by_submit [OF f, of "Submit accepted"] ev(5) e
  have "map_of (registry (fire (Submit accepted) gone)) ''message'' \<noteq> None" by simp
  with ev show ?thesis by simp
qed

end
